theory Spec2Isabelle
  imports Complex_Main
begin

section \<open>Astronomical parameters of pytides (\<open>pytides/astro.py\<close>)\<close>

text \<open>
  The module computes, for a calendar timestamp, the Julian Date, a table of
  polynomial approximations with their derivatives, five nodal-correction angles and two
  composite entries.

  Conventions of this embedding.
  \<^item> A Python \<open>float\<close> is a real number and every operation on it is exact. Where the
    rounding of binary64 decides a property, the function is given a second time with the
    rounding written out (\<open>JD_b64\<close>). A Python \<open>int\<close> is an \<open>int\<close>.
  \<^item> An exception is a value: a function that can raise returns \<open>error + 'a\<close>, with
    \<open>Inl\<close> the exception.
  \<^item> The dictionary \<open>a\<close> built by \<open>astro\<close> is a map from names to parameters.
\<close>

subsection \<open>Exceptions and the arithmetic of Python\<close>

datatype error = ZeroDivisionError | ValueError | KeyError | TypeError

text \<open>Sequencing of computations that can raise: the first exception wins.\<close>

definition bind_err :: "error + 'a \<Rightarrow> ('a \<Rightarrow> error + 'b) \<Rightarrow> error + 'b" where
  "bind_err m f = (case m of Inl e \<Rightarrow> Inl e | Inr v \<Rightarrow> f v)"

text \<open>
  \<open>x ** n\<close> for a float \<open>x\<close> and an int \<open>n\<close>: zero to a negative power raises
  \<open>ZeroDivisionError\<close>, a negative power of anything else is the reciprocal, and
  \<open>x ** 0\<close> is \<open>1.0\<close> also at \<open>x = 0.0\<close>.
\<close>

definition py_pow :: "real \<Rightarrow> int \<Rightarrow> error + real" where
  "py_pow x n =
     (if n < 0 then (if x = 0 then Inl ZeroDivisionError else Inr (1 / x ^ nat (- n)))
      else Inr (x ^ nat n))"

text \<open>\<open>x / y\<close> on floats raises \<open>ZeroDivisionError\<close> at \<open>y = 0\<close>.\<close>

definition py_div :: "real \<Rightarrow> real \<Rightarrow> error + real" where
  "py_div x y = (if y = 0 then Inl ZeroDivisionError else Inr (x / y))"

text \<open>
  \<open>x % y\<close> on floats takes the sign of the divisor: \<open>x - y * floor (x / y)\<close>.
  The source only ever divides by the literal \<open>360.0\<close>.
\<close>

definition py_mod :: "real \<Rightarrow> real \<Rightarrow> real" where
  "py_mod x y = x - y * of_int \<lfloor>x / y\<rfloor>"

text \<open>
  \<open>sum(f(i, c) for i, c in enumerate(coefficients))\<close>: the terms are produced and added from
  left to right, starting from \<open>0\<close>; a term that raises ends the sum.
\<close>

fun sum_gen :: "(nat \<times> real \<Rightarrow> error + real) \<Rightarrow> (nat \<times> real) list \<Rightarrow> real \<Rightarrow> error + real" where
  "sum_gen f [] acc = Inr acc"
| "sum_gen f (p # ps) acc = (case f p of Inl e \<Rightarrow> Inl e | Inr v \<Rightarrow> sum_gen f ps (acc + v))"

subsection \<open>Sexagesimal angles and polynomials\<close>

definition s2d :: "real \<Rightarrow> real \<Rightarrow> real \<Rightarrow> real \<Rightarrow> real \<Rightarrow> real" where
  "s2d degrees arcmins arcsecs mas muas =
     degrees + (arcmins / 60) + (arcsecs / (60 * 60)) + (mas / (60 * 60 * 1000))
       + (muas / (60 * 60 * 1000000))"

definition polynomial :: "real list \<Rightarrow> real \<Rightarrow> error + real" where
  "polynomial coefficients argument =
     sum_gen (\<lambda>(i, c). bind_err (py_pow argument (int i)) (\<lambda>p. Inr (c * p)))
       (enumerate 0 coefficients) 0"

definition d_polynomial :: "real list \<Rightarrow> real \<Rightarrow> error + real" where
  "d_polynomial coefficients argument =
     sum_gen (\<lambda>(i, c). bind_err (py_pow argument (int i - 1)) (\<lambda>p. Inr (c * real i * p)))
       (enumerate 0 coefficients) 0"

subsection \<open>Timestamps and the Julian Date\<close>

text \<open>
  The argument \<open>t\<close> of \<open>JD\<close>, \<open>T\<close> and \<open>astro\<close> is read through its fields \<open>year\<close>, \<open>month\<close>,
  \<open>day\<close>, \<open>hour\<close>, \<open>minute\<close>, \<open>second\<close> and \<open>microsecond\<close>, the fields of \<open>datetime.datetime\<close>.
\<close>

record timestamp =
  year :: int
  month :: int
  day :: int
  hour :: int
  minute :: int
  second :: int
  microsecond :: int

text \<open>
  The values a \<open>datetime.datetime\<close> can hold: the proleptic Gregorian calendar from year 1 to
  year 9999.
\<close>

definition is_leap :: "int \<Rightarrow> bool" where
  "is_leap y = (y mod 4 = 0 \<and> (y mod 100 \<noteq> 0 \<or> y mod 400 = 0))"

definition days_in_month :: "int \<Rightarrow> int \<Rightarrow> int" where
  "days_in_month y m =
     (if m = 2 then (if is_leap y then 29 else 28)
      else if m = 4 \<or> m = 6 \<or> m = 9 \<or> m = 11 then 30 else 31)"

definition valid_timestamp :: "timestamp \<Rightarrow> bool" where
  "valid_timestamp t =
     (1 \<le> year t \<and> year t \<le> 9999 \<and> 1 \<le> month t \<and> month t \<le> 12
      \<and> 1 \<le> day t \<and> day t \<le> days_in_month (year t) (month t)
      \<and> 0 \<le> hour t \<and> hour t < 24 \<and> 0 \<le> minute t \<and> minute t < 60
      \<and> 0 \<le> second t \<and> second t < 60 \<and> 0 \<le> microsecond t \<and> microsecond t < 1000000)"

text \<open>Calendar order: the lexicographic order of the fields, as \<open>datetime\<close> compares.\<close>

definition timestamp_fields :: "timestamp \<Rightarrow> int list" where
  "timestamp_fields t = [year t, month t, day t, hour t, minute t, second t, microsecond t]"

fun lex_less :: "int list \<Rightarrow> int list \<Rightarrow> bool" where
  "lex_less (x # xs) (y # ys) = (x < y \<or> (x = y \<and> lex_less xs ys))"
| "lex_less _ _ = False"

definition before :: "timestamp \<Rightarrow> timestamp \<Rightarrow> bool" where
  "before t1 t2 = lex_less (timestamp_fields t1) (timestamp_fields t2)"

text \<open>Meeus formula 7.1. \<open>math.floor\<close> returns an \<open>int\<close>.\<close>

definition JD :: "timestamp \<Rightarrow> real" where
  "JD t =
     (let Y = year t; M = month t;
          D = real_of_int (day t)
              + real_of_int (hour t) / 24
              + real_of_int (minute t) / (24 * 60)
              + real_of_int (second t) / (24 * 60 * 60)
              + real_of_int (microsecond t) / (24 * 60 * 60 * 1000000);
          (Y, M) = (if M \<le> 2 then (Y - 1, M + 12) else (Y, M));
          A = \<lfloor>real_of_int Y / 100\<rfloor>;
          B = 2 - A + \<lfloor>real_of_int A / 4\<rfloor>
      in real_of_int \<lfloor>365.25 * real_of_int (Y + 4716)\<rfloor>
         + real_of_int \<lfloor>30.6001 * real_of_int (M + 1)\<rfloor> + D + real_of_int B - 1524.5)"

text \<open>Meeus formula 11.1: Julian centuries since J2000.0.\<close>

definition T :: "timestamp \<Rightarrow> real" where
  "T t = (JD t - 2451545) / 36525"

subsection \<open>The Julian Date in binary64\<close>

text \<open>
  One microsecond is about \<open>1.2e-11\<close> of a day, and the doubles near \<open>2.4e6\<close> are
  \<open>2 ^ - 31\<close> (about \<open>4.7e-10\<close>) apart: on the question whether two timestamps have
  different Julian Dates the rounding decides. \<open>JD_b64\<close> is \<open>JD\<close> with every floating-point
  operation rounded to the nearest double, ties to even; integers stay exact, as
  \<open>math.floor\<close> returns an \<open>int\<close>.

  \<open>exponent n x\<close> looks for the binary exponent of a positive \<open>x\<close> in at most \<open>n\<close> steps and
  \<open>b64\<close> rounds to 53 significant bits at that exponent. Overflow and subnormal numbers are
  not modelled: every value of the computation lies between \<open>1e-12\<close> and \<open>1e11\<close>.
\<close>

definition round_even :: "real \<Rightarrow> int" where
  "round_even x =
     (let f = \<lfloor>x\<rfloor>; d = x - real_of_int f
      in if d < 1 / 2 then f else if 1 / 2 < d then f + 1 else if even f then f else f + 1)"

fun exponent :: "nat \<Rightarrow> real \<Rightarrow> int" where
  "exponent 0 x = 0"
| "exponent (Suc n) x =
     (if 2 \<le> x then exponent n (x / 2) + 1
      else if x < 1 then exponent n (2 * x) - 1
      else 0)"

definition b64 :: "real \<Rightarrow> real" where
  "b64 x =
     (if x = 0 then 0
      else let e = exponent 1100 \<bar>x\<bar> - 52
           in real_of_int (round_even (x / 2 powi e)) * 2 powi e)"

definition fadd :: "real \<Rightarrow> real \<Rightarrow> real" where
  "fadd x y = b64 (x + y)"

definition fsub :: "real \<Rightarrow> real \<Rightarrow> real" where
  "fsub x y = b64 (x - y)"

definition fmul :: "real \<Rightarrow> real \<Rightarrow> real" where
  "fmul x y = b64 (x * y)"

definition fdiv :: "real \<Rightarrow> real \<Rightarrow> real" where
  "fdiv x y = b64 (x / y)"

definition JD_b64 :: "timestamp \<Rightarrow> real" where
  "JD_b64 t =
     (let Y = year t; M = month t;
          D = fadd (fadd (fadd (fadd (real_of_int (day t))
                (fdiv (real_of_int (hour t)) 24))
                (fdiv (real_of_int (minute t)) (fmul 24 60)))
                (fdiv (real_of_int (second t)) (fmul (fmul 24 60) 60)))
                (fdiv (real_of_int (microsecond t)) (fmul (fmul (fmul 24 60) 60) 1000000));
          (Y, M) = (if M \<le> 2 then (Y - 1, M + 12) else (Y, M));
          A = \<lfloor>fdiv (real_of_int Y) 100\<rfloor>;
          B = 2 - A + \<lfloor>fdiv (real_of_int A) 4\<rfloor>
      in fsub (fadd (fadd (real_of_int (\<lfloor>fmul 365.25 (real_of_int (Y + 4716))\<rfloor>
                                        + \<lfloor>fmul (b64 30.6001) (real_of_int (M + 1))\<rfloor>)) D)
                    (real_of_int B)) 1524.5)"

subsection \<open>Coefficient tables\<close>

text \<open>Meeus formula 21.3, then rescaled from the parameter \<open>U\<close> to \<open>T\<close>.\<close>

definition terrestrial_obliquity_coefficients_U :: "real list" where
  "terrestrial_obliquity_coefficients_U =
     [s2d 23 26 21.448 0 0,
      - s2d 0 0 4680.93 0 0,
      - s2d 0 0 1.55 0 0,
      s2d 0 0 1999.25 0 0,
      - s2d 0 0 51.38 0 0,
      - s2d 0 0 249.67 0 0,
      - s2d 0 0 39.05 0 0,
      s2d 0 0 7.12 0 0,
      s2d 0 0 27.87 0 0,
      s2d 0 0 5.79 0 0,
      s2d 0 0 2.45 0 0]"

definition terrestrial_obliquity_coefficients :: "real list" where
  "terrestrial_obliquity_coefficients =
     map (\<lambda>(i, c). c * (1 / 100) ^ i) (enumerate 0 terrestrial_obliquity_coefficients_U)"

definition solar_perigee_coefficients :: "real list" where
  "solar_perigee_coefficients =
     [280.46645 - 357.52910,
      36000.76932 - 35999.05030,
      0.0003032 + 0.0001559,
      0.00000048]"

definition solar_longitude_coefficients :: "real list" where
  "solar_longitude_coefficients = [280.46645, 36000.76983, 0.0003032]"

definition lunar_inclination_coefficients :: "real list" where
  "lunar_inclination_coefficients = [5.145]"

text \<open>
  Meeus formula 45.1. In the source no comma separates the last two lines, so they are
  one expression: the tuple has four elements.
\<close>

definition lunar_longitude_coefficients :: "real list" where
  "lunar_longitude_coefficients =
     [218.3164591,
      481267.88134236,
      - 0.0013268,
      1 / 538841 - 1 / 65194000]"

definition lunar_node_coefficients :: "real list" where
  "lunar_node_coefficients =
     [125.0445550,
      - 1934.1361849,
      0.0020762,
      1 / 467410,
      - 1 / 60616000]"

definition lunar_perigee_coefficients :: "real list" where
  "lunar_perigee_coefficients =
     [83.3532430,
      4069.0137111,
      - 0.0103238,
      - 1 / 80053,
      1 / 18999000]"

subsection \<open>Nodal-correction angles\<close>

definition radians :: "real \<Rightarrow> real" where
  "radians x = x * pi / 180"

definition degrees :: "real \<Rightarrow> real" where
  "degrees x = x * 180 / pi"

text \<open>\<open>math.acos\<close> raises \<open>ValueError\<close> outside \<open>[-1, 1]\<close>.\<close>

definition py_acos :: "real \<Rightarrow> error + real" where
  "py_acos x = (if x < - 1 \<or> 1 < x then Inl ValueError else Inr (arccos x))"

text \<open>
  The functions \<open>_I\<close>, \<open>_xi\<close>, \<open>_nu\<close>, \<open>_nup\<close> and \<open>_nupp\<close> of the source (an identifier
  cannot start with an underscore here). \<open>math.tan\<close> is \<open>tan\<close>: the two agree wherever the
  cosine is not zero, and \<open>math.tan\<close> raises nowhere.
\<close>

definition astro_I :: "real \<Rightarrow> real \<Rightarrow> real \<Rightarrow> error + real" where
  "astro_I N0 i0 omega0 =
     (let N = radians N0; i = radians i0; omega = radians omega0;
          cosI = cos i * cos omega - sin i * sin omega * cos N
      in bind_err (py_acos cosI) (\<lambda>r. Inr (degrees r)))"

definition astro_xi :: "real \<Rightarrow> real \<Rightarrow> real \<Rightarrow> error + real" where
  "astro_xi N0 i0 omega0 =
     (let N5 = radians N0 * 0.5; i = radians i0; omega = radians omega0
      in bind_err (py_div (cos (0.5 * (omega - i))) (cos (0.5 * (omega + i)))) (\<lambda>q1.
         bind_err (py_div (sin (0.5 * (omega - i))) (sin (0.5 * (omega + i)))) (\<lambda>q2.
           let e1 = q1 * tan N5; e2 = q2 * tan N5;
               e1 = arctan e1; e2 = arctan e2;
               e1 = e1 - N5; e2 = e2 - N5
           in Inr (degrees (- (e1 + e2))))))"

definition astro_nu :: "real \<Rightarrow> real \<Rightarrow> real \<Rightarrow> error + real" where
  "astro_nu N0 i0 omega0 =
     (let N5 = radians N0 * 0.5; i = radians i0; omega = radians omega0
      in bind_err (py_div (cos (0.5 * (omega - i))) (cos (0.5 * (omega + i)))) (\<lambda>q1.
         bind_err (py_div (sin (0.5 * (omega - i))) (sin (0.5 * (omega + i)))) (\<lambda>q2.
           let e1 = q1 * tan N5; e2 = q2 * tan N5;
               e1 = arctan e1; e2 = arctan e2;
               e1 = e1 - N5; e2 = e2 - N5
           in Inr (degrees (e1 - e2)))))"

text \<open>Schureman equation 224.\<close>

definition astro_nup :: "real \<Rightarrow> real \<Rightarrow> real \<Rightarrow> error + real" where
  "astro_nup N i omega =
     bind_err (astro_I N i omega) (\<lambda>I0.
     bind_err (astro_nu N i omega) (\<lambda>nu0.
       let I = radians I0; nu = radians nu0; sin2i = sin (2 * I)
       in bind_err (py_div (sin2i * sin nu) (sin2i * cos nu + 0.3347)) (\<lambda>q.
            Inr (degrees (arctan q)))))"

text \<open>Schureman equation 232.\<close>

definition astro_nupp :: "real \<Rightarrow> real \<Rightarrow> real \<Rightarrow> error + real" where
  "astro_nupp N i omega =
     bind_err (astro_I N i omega) (\<lambda>I0.
     bind_err (astro_nu N i omega) (\<lambda>nu0.
       let I = radians I0; nu = radians nu0
       in bind_err (py_div ((sin I)\<^sup>2 * sin (2 * nu)) ((sin I)\<^sup>2 * cos (2 * nu) + 0.0727))
            (\<lambda>tan2nupp. Inr (degrees (0.5 * arctan tan2nupp)))))"

subsection \<open>The parameter set\<close>

text \<open>The named tuple \<open>AstronomicalParameter(value, speed)\<close>; a speed can be \<open>None\<close>.\<close>

record AstronomicalParameter =
  val :: real
  speed :: "real option"

type_synonym params = "string \<rightharpoonup> AstronomicalParameter"

definition POLYNOMIALS :: "(string \<times> real list) list" where
  "POLYNOMIALS =
     [(''s'', lunar_longitude_coefficients),
      (''h'', solar_longitude_coefficients),
      (''p'', lunar_perigee_coefficients),
      (''N'', lunar_node_coefficients),
      (''pp'', solar_perigee_coefficients),
      (''90'', [90]),
      (''omega'', terrestrial_obliquity_coefficients),
      (''i'', lunar_inclination_coefficients)]"

text \<open>\<open>a[k]\<close> raises \<open>KeyError\<close> for a missing key.\<close>

definition lookup :: "params \<Rightarrow> string \<Rightarrow> error + AstronomicalParameter" where
  "lookup a k = (case a k of None \<Rightarrow> Inl KeyError | Some p \<Rightarrow> Inr p)"

text \<open>Arithmetic on a speed that is \<open>None\<close> raises \<open>TypeError\<close>.\<close>

definition num :: "real option \<Rightarrow> error + real" where
  "num s = (case s of None \<Rightarrow> Inl TypeError | Some x \<Rightarrow> Inr x)"

text \<open>\<open>name.strip('_')\<close>: the underscores at both ends are removed.\<close>

definition strip :: "char \<Rightarrow> string \<Rightarrow> string" where
  "strip c s = rev (dropWhile (\<lambda>x. x = c) (rev (dropWhile (\<lambda>x. x = c) s)))"

definition dT_dHour :: real where
  "dT_dHour = 1 / (24 * 365.25 * 100)"

text \<open>The first loop of \<open>astro\<close>, over the items of \<open>POLYNOMIALS\<close>.\<close>

fun poly_loop :: "(string \<times> real list) list \<Rightarrow> real \<Rightarrow> params \<Rightarrow> error + params" where
  "poly_loop [] Tt a = Inr a"
| "poly_loop ((name, coefficients) # rest) Tt a =
     bind_err (polynomial coefficients Tt) (\<lambda>v.
     bind_err (d_polynomial coefficients Tt) (\<lambda>d.
       poly_loop rest Tt (a(name \<mapsto> \<lparr>val = py_mod v 360, speed = Some (d * dT_dHour)\<rparr>))))"

text \<open>The second loop, over the functions with their \<open>__name__\<close>.\<close>

definition nodal_functions :: "(string \<times> (real \<Rightarrow> real \<Rightarrow> real \<Rightarrow> error + real)) list" where
  "nodal_functions =
     [(''_I'', astro_I), (''_xi'', astro_xi), (''_nu'', astro_nu), (''_nup'', astro_nup),
      (''_nupp'', astro_nupp)]"

fun nodal_loop ::
  "(string \<times> (real \<Rightarrow> real \<Rightarrow> real \<Rightarrow> error + real)) list \<Rightarrow> real \<times> real \<times> real \<Rightarrow> params
     \<Rightarrow> error + params" where
  "nodal_loop [] args a = Inr a"
| "nodal_loop ((fname, function) # rest) (N, i, omega) a =
     (let name = strip (CHR ''_'') fname
      in bind_err (function N i omega) (\<lambda>r.
           nodal_loop rest (N, i, omega) (a(name \<mapsto> \<lparr>val = py_mod r 360, speed = None\<rparr>))))"

definition astro :: "timestamp \<Rightarrow> error + params" where
  "astro t =
     (let Tt = T t
      in bind_err (poly_loop POLYNOMIALS Tt Map.empty) (\<lambda>a.
         bind_err (lookup a ''N'') (\<lambda>pN.
         bind_err (lookup a ''i'') (\<lambda>pi.
         bind_err (lookup a ''omega'') (\<lambda>pomega.
         bind_err (nodal_loop nodal_functions (val pN, val pi, val pomega) a) (\<lambda>a.
           let JDt = JD t;
               hour = \<lparr>val = (JDt - real_of_int \<lfloor>JDt\<rfloor>) * 360, speed = Some 15\<rparr>
           in bind_err (lookup a ''h'') (\<lambda>ph.
              bind_err (lookup a ''s'') (\<lambda>ps.
              bind_err (num (speed hour)) (\<lambda>s0.
              bind_err (num (speed ph)) (\<lambda>s1.
              bind_err (num (speed ps)) (\<lambda>s2.
                let a = a(''T+h-s'' \<mapsto> \<lparr>val = val hour + val ph - val ps,
                                          speed = Some (s0 + s1 - s2)\<rparr>)
                in bind_err (lookup a ''p'') (\<lambda>pp.
                   bind_err (lookup a ''xi'') (\<lambda>pxi.
                     Inr (a(''P'' \<mapsto> \<lparr>val = py_mod (val pp - val pxi) 360,
                                       speed = None\<rparr>)))))))))))))))"

section \<open>Closed forms used in the proofs\<close>

text \<open>
  None of the definitions of this section is part of the program: they name the values the
  program computes, so that the lemmas below can state them.
\<close>

subsection \<open>The value and the derivative of a polynomial\<close>

definition poly_value :: "real list \<Rightarrow> real \<Rightarrow> real" where
  "poly_value cs x = (\<Sum>k<length cs. cs ! k * x ^ k)"

definition poly_deriv :: "real list \<Rightarrow> real \<Rightarrow> real" where
  "poly_deriv cs x = (\<Sum>k<length cs. cs ! k * real k * x ^ (k - 1))"

subsection \<open>The day number inside the Julian Date\<close>

text \<open>
  \<open>day_number\<close> is the integral part of \<open>JD\<close> before the offset \<open>1524.5\<close>, with every floor
  written as an integer division; \<open>usec_of_day\<close> counts the microseconds since midnight.
  \<open>year_base\<close> collects the terms that depend on the shifted year only, and
  \<open>days_before_month\<close> is the number of days of the calendar year before a month.
\<close>

definition day_number :: "int \<Rightarrow> int \<Rightarrow> int \<Rightarrow> int" where
  "day_number y m d =
     (let Y = (if m \<le> 2 then y - 1 else y); M = (if m \<le> 2 then m + 12 else m);
          A = Y div 100; B = 2 - A + A div 4
      in (1461 * (Y + 4716)) div 4 + (306001 * (M + 1)) div 10000 + d + B)"

definition usec_of_day :: "timestamp \<Rightarrow> int" where
  "usec_of_day t = ((hour t * 60 + minute t) * 60 + second t) * 1000000 + microsecond t"

definition year_base :: "int \<Rightarrow> int" where
  "year_base Y = (1461 * (Y + 4716)) div 4 + (2 - Y div 100 + (Y div 100) div 4)"

definition days_before_month :: "int \<Rightarrow> int \<Rightarrow> int" where
  "days_before_month y m =
     (if m = 1 then 0 else if m = 2 then 31 else
      (if is_leap y then 1 else 0) +
      (if m = 3 then 59 else if m = 4 then 90 else if m = 5 then 120 else if m = 6 then 151
       else if m = 7 then 181 else if m = 8 then 212 else if m = 9 then 243
       else if m = 10 then 273 else if m = 11 then 304 else 334))"

subsection \<open>Timestamps used as examples\<close>

definition J2000 :: timestamp where
  "J2000 = \<lparr>year = 2000, month = 1, day = 1, hour = 12, minute = 0, second = 0, microsecond = 0\<rparr>"

definition t_after_J2000 :: timestamp where
  "t_after_J2000 =
     \<lparr>year = 2000, month = 1, day = 1, hour = 12, minute = 0, second = 0, microsecond = 1\<rparr>"

definition t_11h :: timestamp where
  "t_11h = \<lparr>year = 2000, month = 1, day = 1, hour = 11, minute = 0, second = 0, microsecond = 0\<rparr>"

definition t_jan8 :: timestamp where
  "t_jan8 = \<lparr>year = 2000, month = 1, day = 8, hour = 12, minute = 0, second = 0, microsecond = 0\<rparr>"



subsection \<open>The result of \<open>astro\<close>\<close>

text \<open>
  The entry of a polynomial, the entry of a nodal function, the dictionary after the first
  loop, the three arguments passed to the nodal functions and, given what the five nodal
  functions return, the dictionary \<open>astro\<close> returns.
\<close>

definition poly_param :: "real list \<Rightarrow> real \<Rightarrow> AstronomicalParameter" where
  "poly_param cs Tt = \<lparr>val = py_mod (poly_value cs Tt) 360, speed = Some (poly_deriv cs Tt * dT_dHour)\<rparr>"

definition nodal_param :: "real \<Rightarrow> AstronomicalParameter" where
  "nodal_param r = \<lparr>val = py_mod r 360, speed = None\<rparr>"

definition poly_params :: "real \<Rightarrow> params" where
  "poly_params Tt = foldl (\<lambda>a (name, cs). a(name \<mapsto> poly_param cs Tt)) Map.empty POLYNOMIALS"

definition arg_N :: "timestamp \<Rightarrow> real" where
  "arg_N t = py_mod (poly_value lunar_node_coefficients (T t)) 360"

definition arg_i :: "timestamp \<Rightarrow> real" where
  "arg_i t = py_mod (poly_value lunar_inclination_coefficients (T t)) 360"

definition arg_omega :: "timestamp \<Rightarrow> real" where
  "arg_omega t = py_mod (poly_value terrestrial_obliquity_coefficients (T t)) 360"

definition astro_result :: "timestamp \<Rightarrow> real \<Rightarrow> real \<Rightarrow> real \<Rightarrow> real \<Rightarrow> real \<Rightarrow> params" where
  "astro_result t rI rxi rnu rnup rnupp =
     (poly_params (T t))
       (''I'' \<mapsto> nodal_param rI, ''xi'' \<mapsto> nodal_param rxi, ''nu'' \<mapsto> nodal_param rnu,
        ''nup'' \<mapsto> nodal_param rnup, ''nupp'' \<mapsto> nodal_param rnupp,
        ''T+h-s'' \<mapsto>
          \<lparr>val = (JD t - real_of_int \<lfloor>JD t\<rfloor>) * 360
                 + py_mod (poly_value solar_longitude_coefficients (T t)) 360
                 - py_mod (poly_value lunar_longitude_coefficients (T t)) 360,
           speed = Some (15 + poly_deriv solar_longitude_coefficients (T t) * dT_dHour
                         - poly_deriv lunar_longitude_coefficients (T t) * dT_dHour)\<rparr>,
        ''P'' \<mapsto>
          \<lparr>val = py_mod (py_mod (poly_value lunar_perigee_coefficients (T t)) 360 - py_mod rxi 360) 360,
           speed = None\<rparr>)"

text \<open>A value normalised into \<open>[0, 360)\<close>, and a dictionary whose values all are, \<open>T+h-s\<close> apart.\<close>

definition in_range :: "AstronomicalParameter \<Rightarrow> bool" where
  "in_range p \<longleftrightarrow> 0 \<le> val p \<and> val p < 360"

definition others_in_range :: "params \<Rightarrow> bool" where
  "others_in_range m \<longleftrightarrow> (\<forall>k p. k \<noteq> ''T+h-s'' \<longrightarrow> m k = Some p \<longrightarrow> in_range p)"

section \<open>Polynomials\<close>

lemma sum_gen_polynomial:
  "sum_gen (\<lambda>(i, c). bind_err (py_pow x (int i)) (\<lambda>p. Inr (c * p))) (enumerate n cs) acc
     = Inr (acc + (\<Sum>k<length cs. cs ! k * x ^ (n + k)))"
proof (induction cs arbitrary: n acc)
  case Nil
  then show ?case by simp
next
  case (Cons c cs)
  have "(\<Sum>k<Suc (length cs). (c # cs) ! k * x ^ (n + k))
          = c * x ^ n + (\<Sum>k<length cs. cs ! k * x ^ (Suc n + k))"
    by (simp add: sum.lessThan_Suc_shift del: sum.lessThan_Suc)
  with Cons.IH [of "Suc n" "acc + c * x ^ n"] show ?case
    by (simp add: py_pow_def bind_err_def)
qed

text \<open>\<open>polynomial\<close> never raises: it returns the sum of \<open>c\<^sub>k * x ^ k\<close>.\<close>

lemma polynomial_eq: "polynomial cs x = Inr (\<Sum>k<length cs. cs ! k * x ^ k)"
  using sum_gen_polynomial [of x 0 cs 0] by (simp add: polynomial_def)

lemma py_pow_pred:
  "x \<noteq> 0 \<Longrightarrow>
   bind_err (py_pow x (int i - 1)) (\<lambda>p. Inr (c * real i * p)) = Inr (c * real i * x ^ (i - 1))"
  by (cases i) (simp_all add: py_pow_def bind_err_def)

lemma sum_gen_d_polynomial:
  "x \<noteq> 0 \<Longrightarrow>
   sum_gen (\<lambda>(i, c). bind_err (py_pow x (int i - 1)) (\<lambda>p. Inr (c * real i * p)))
     (enumerate n cs) acc
     = Inr (acc + (\<Sum>k<length cs. cs ! k * real (n + k) * x ^ (n + k - 1)))"
proof (induction cs arbitrary: n acc)
  case Nil
  then show ?case by simp
next
  case (Cons c cs)
  have "(\<Sum>k<Suc (length cs). (c # cs) ! k * real (n + k) * x ^ (n + k - 1))
          = c * real n * x ^ (n - 1)
            + (\<Sum>k<length cs. cs ! k * real (Suc n + k) * x ^ (Suc n + k - 1))"
    by (simp add: sum.lessThan_Suc_shift add.commute add.left_commute del: sum.lessThan_Suc)
  with Cons.IH [of "Suc n" "acc + c * real n * x ^ (n - 1)"] Cons.prems show ?case
    by (simp add: py_pow_pred)
qed

text \<open>
  Away from \<open>0\<close>, \<open>d_polynomial\<close> returns the sum of \<open>c\<^sub>k * k * x ^ (k - 1)\<close>, which is the
  derivative of the polynomial. At \<open>0\<close> the very first term evaluates \<open>0.0 ** -1\<close> and raises,
  whatever the coefficients are.
\<close>

lemma d_polynomial_eq:
  "x \<noteq> 0 \<Longrightarrow> d_polynomial cs x = Inr (\<Sum>k<length cs. cs ! k * real k * x ^ (k - 1))"
  using sum_gen_d_polynomial [of x 0 cs 0] by (simp add: d_polynomial_def)

lemma d_polynomial_zero: "cs \<noteq> [] \<Longrightarrow> d_polynomial cs 0 = Inl ZeroDivisionError"
  by (cases cs) (simp_all add: d_polynomial_def py_pow_def bind_err_def)

lemma d_polynomial_Nil: "d_polynomial [] x = Inr 0"
  by (simp add: d_polynomial_def)

lemma polynomial_has_derivative:
  "((\<lambda>y. \<Sum>k<n. cs ! k * y ^ k) has_real_derivative (\<Sum>k<n. cs ! k * real k * x ^ (k - 1)))
     (at x)"
  by (auto intro!: derivative_eq_intros sum.cong simp: mult_ac)

text \<open>
  Claim C2. \<open>polynomial\<close> and \<open>d_polynomial\<close> are said to return a value for every coefficient
  sequence and every real argument. \<open>polynomial\<close> does (\<open>polynomial_eq\<close>); \<open>d_polynomial\<close>
  raises \<open>ZeroDivisionError\<close> at the argument \<open>0.0\<close>, here for the one-element sequence
  \<open>(1.0,)\<close>.
\<close>

theorem d_polynomial_raises_at_zero:
  "d_polynomial [1] 0 = Inl ZeroDivisionError \<and> polynomial [1] 0 = Inr 1"
  by (simp add: d_polynomial_zero polynomial_eq)

text \<open>
  Claim C5. \<open>d_polynomial c x\<close> is said to be the sum of \<open>c\<^sub>i * i * x ^ (i - 1)\<close>, the derivative
  of \<open>polynomial c\<close>, at every real \<open>x\<close>, the term of \<open>i = 0\<close> contributing zero. For the
  coefficients \<open>(0.0, 1.0)\<close> the polynomial is the identity, of derivative \<open>1\<close> at \<open>0\<close>; there
  \<open>d_polynomial\<close> raises in the term of \<open>i = 0\<close> instead of returning \<open>1\<close>.
\<close>

theorem d_polynomial_not_derivative_at_zero:
  "d_polynomial [0, 1] 0 = Inl ZeroDivisionError
   \<and> (\<forall>y. polynomial [0, 1] y = Inr y)
   \<and> ((\<lambda>y. y) has_real_derivative 1) (at 0)"
  by (simp add: d_polynomial_zero polynomial_eq)

lemma polynomial_value: "polynomial cs x = Inr (poly_value cs x)"
  by (simp add: polynomial_eq poly_value_def)

lemma d_polynomial_value: "x \<noteq> 0 \<Longrightarrow> d_polynomial cs x = Inr (poly_deriv cs x)"
  by (simp add: d_polynomial_eq poly_deriv_def)

lemma sum_3:
  fixes f :: "nat \<Rightarrow> real"
  shows "(\<Sum>k<3. f k) = f 0 + f 1 + f 2"
  by (simp add: eval_nat_numeral lessThan_Suc)

lemma sum_4:
  fixes f :: "nat \<Rightarrow> real"
  shows "(\<Sum>k<4. f k) = f 0 + f 1 + f 2 + f 3"
  by (simp add: eval_nat_numeral lessThan_Suc)

lemma sum_11:
  fixes f :: "nat \<Rightarrow> real"
  shows "(\<Sum>k<11. f k) = f 0 + f 1 + f 2 + f 3 + f 4 + f 5 + f 6 + f 7 + f 8 + f 9 + f 10"
  by (simp add: eval_nat_numeral lessThan_Suc)

lemma solar_longitude_value:
  "poly_value solar_longitude_coefficients x = 280.46645 + 36000.76983 * x + 0.0003032 * x ^ 2"
proof -
  have l: "length solar_longitude_coefficients = 3" by (simp add: solar_longitude_coefficients_def)
  show ?thesis unfolding poly_value_def l sum_3 by (simp add: solar_longitude_coefficients_def)
qed

lemma lunar_longitude_value:
  "poly_value lunar_longitude_coefficients x
     = 218.3164591 + 481267.88134236 * x - 0.0013268 * x ^ 2 + (1 / 538841 - 1 / 65194000) * x ^ 3"
proof -
  have l: "length lunar_longitude_coefficients = 4" by (simp add: lunar_longitude_coefficients_def)
  show ?thesis unfolding poly_value_def l sum_4 by (simp add: lunar_longitude_coefficients_def)
qed

lemma poly_value_scaled:
  "poly_value (map (\<lambda>(i, c). c * s ^ i) (enumerate 0 cs)) x = poly_value cs (s * x)"
  by (simp add: poly_value_def nth_enumerate_eq power_mult_distrib mult.assoc)

section \<open>The Julian Date\<close>

subsection \<open>The Julian Date as a day number and a fraction of a day\<close>

lemma floor_365_25: "\<lfloor>365.25 * real_of_int k\<rfloor> = (1461 * k) div 4"
proof -
  have "365.25 * real_of_int k = real_of_int (1461 * k) / real_of_int 4" by simp
  then show ?thesis by (simp only: floor_divide_of_int_eq)
qed

lemma floor_30_6001: "\<lfloor>30.6001 * real_of_int k\<rfloor> = (306001 * k) div 10000"
proof -
  have "30.6001 * real_of_int k = real_of_int (306001 * k) / real_of_int 10000" by simp
  then show ?thesis by (simp only: floor_divide_of_int_eq)
qed

lemma floor_div_100: "\<lfloor>real_of_int k / 100\<rfloor> = k div 100"
  using floor_divide_of_int_eq [of k 100, where ?'a = real] by simp

lemma floor_div_4: "\<lfloor>real_of_int k / 4\<rfloor> = k div 4"
  using floor_divide_of_int_eq [of k 4, where ?'a = real] by simp

lemma JD_day_number:
  "JD t = real_of_int (day_number (year t) (month t) (day t))
          + real_of_int (usec_of_day t) / 86400000000 - 1524.5"
proof (cases "month t \<le> 2")
  case True
  then have "JD t = real_of_int ((1461 * (year t - 1 + 4716)) div 4)
      + real_of_int ((306001 * (month t + 12 + 1)) div 10000)
      + (real_of_int (day t) + real_of_int (hour t) / 24 + real_of_int (minute t) / (24 * 60)
         + real_of_int (second t) / (24 * 60 * 60)
         + real_of_int (microsecond t) / (24 * 60 * 60 * 1000000))
      + real_of_int (2 - (year t - 1) div 100 + ((year t - 1) div 100) div 4) - 1524.5"
    unfolding JD_def Let_def
    by (simp only: if_True prod.case floor_365_25 floor_30_6001 floor_div_100 floor_div_4)
  with True show ?thesis
    by (simp add: day_number_def usec_of_day_def Let_def field_simps)
next
  case False
  then have "JD t = real_of_int ((1461 * (year t + 4716)) div 4)
      + real_of_int ((306001 * (month t + 1)) div 10000)
      + (real_of_int (day t) + real_of_int (hour t) / 24 + real_of_int (minute t) / (24 * 60)
         + real_of_int (second t) / (24 * 60 * 60)
         + real_of_int (microsecond t) / (24 * 60 * 60 * 1000000))
      + real_of_int (2 - (year t) div 100 + ((year t) div 100) div 4) - 1524.5"
    unfolding JD_def Let_def
    by (simp only: if_False prod.case floor_365_25 floor_30_6001 floor_div_100 floor_div_4)
  with False show ?thesis
    by (simp add: day_number_def usec_of_day_def Let_def field_simps)
qed

subsection \<open>Rounding to binary64\<close>

text \<open>
  With enough steps \<open>exponent\<close> finds the exponent \<open>\<lfloor>log 2 x\<rfloor>\<close>; the 1100 steps \<open>b64\<close> allows
  cover every normal double.
\<close>

lemma floor_log2_eq:
  fixes x :: real
  assumes "2 powi k \<le> x" "x < 2 powi (k + 1)"
  shows "\<lfloor>log 2 x\<rfloor> = k"
proof -
  have "0 < (2::real) powi k" by simp
  with assms have x: "0 < x" by linarith
  have p: "(2::real) powr real_of_int j = 2 powi j" for j
    by (rule powr_real_of_int') simp_all
  show ?thesis
    using assms x p [of k] p [of "k + 1"] by (simp add: floor_log_eq_powr_iff)
qed

lemma exponent_floor_log:
  "2 powi (- int n) \<le> x \<Longrightarrow> x < 2 powi (int n + 1) \<Longrightarrow> exponent n x = \<lfloor>log 2 x\<rfloor>"
proof (induction n arbitrary: x)
  case 0
  then have "\<lfloor>log 2 x\<rfloor> = 0" by (intro floor_log2_eq) simp_all
  then show ?case by simp
next
  case (Suc n)
  have small: "(2::real) powi (- int n) \<le> 1"
    by (simp add: power_int_minus inverse_le_1_iff)
  have big: "(2::real) \<le> 2 powi (int n + 1)"
    by (simp add: power_int_add)
  have lo: "2 powi (- int n) \<le> 2 * x"
  proof -
    have "(2::real) powi (1 + (- int (Suc n))) = 2 powi 1 * 2 powi (- int (Suc n))"
      by (rule power_int_add) simp
    moreover have "1 + (- int (Suc n)) = - int n" by simp
    ultimately have "(2::real) powi (- int n) = 2 * 2 powi (- int (Suc n))"
      by simp
    with Suc.prems(1) show ?thesis by simp
  qed
  have hi: "x / 2 < 2 powi (int n + 1)"
  proof -
    have "(2::real) powi (int (Suc n) + 1) = 2 * 2 powi (int n + 1)"
      by (simp add: power_int_add)
    with Suc.prems(2) show ?thesis by simp
  qed
  consider "2 \<le> x" | "x < 1" | "1 \<le> x" "x < 2" by linarith
  then show ?case
  proof cases
    case 1
    then have "2 powi (- int n) \<le> x / 2" using small by linarith
    from Suc.IH [OF this hi] have "exponent n (x / 2) = \<lfloor>log 2 (x / 2)\<rfloor>" .
    moreover have "log 2 (x / 2) = log 2 x - 1" using 1 by (simp add: log_divide)
    ultimately show ?thesis using 1 by simp
  next
    case 2
    have x: "0 < x"
    proof -
      have "0 < (2::real) powi (- int (Suc n))" by simp
      with Suc.prems(1) show ?thesis by linarith
    qed
    have "2 * x < 2 powi (int n + 1)" using 2 big by linarith
    from Suc.IH [OF lo this] have "exponent n (2 * x) = \<lfloor>log 2 (2 * x)\<rfloor>" .
    moreover have "log 2 (2 * x) = 1 + log 2 x" using x by (simp add: log_mult)
    ultimately show ?thesis using 2 by simp
  next
    case 3
    then have "\<lfloor>log 2 x\<rfloor> = 0" by (intro floor_log2_eq) simp_all
    with 3 show ?thesis by simp
  qed
qed

lemma exponent_numeral [simp]:
  "exponent (numeral k) x =
     (if 2 \<le> x then exponent (pred_numeral k) (x / 2) + 1
      else if x < 1 then exponent (pred_numeral k) (2 * x) - 1
      else 0)"
  by (simp add: numeral_eq_Suc)

lemma b64_zero: "b64 0 = 0"
  by (simp add: b64_def)

lemma b64_values:
  "b64 (1440) = 1440"
  "b64 (86400) = 86400"
  "b64 (86400000000) = 86400000000"
  "b64 (23 / 24) = 8631899285793451 / 9007199254740992"
  "b64 (287855076182764203 / 9007199254740992) = 8995471130711381 / 281474976710656"
  "b64 (59 / 1440) = 5904719511441317 / 144115188075855872"
  "b64 (4611585938435668389 / 144115188075855872) = 9007003786007165 / 281474976710656"
  "b64 (59 / 86400) = 3149183739435369 / 4611686018427387904"
  "b64 (147573899213680826729 / 4611686018427387904) = 9007195996928761 / 281474976710656"
  "b64 (37037 / 3200000000) = 6832120602579807 / 590295810358705651712"
  "b64 (18889465931471747568479 / 590295810358705651712) = 4503599627368867 / 140737488355328"
  "b64 (1999 / 100) = 5626684784446013 / 281474976710656"
  "b64 (19 / 4) = 19 / 4"
  "b64 (306001 / 10000) = 8613162434843745 / 281474976710656"
  "b64 (9810615 / 4) = 9810615 / 4"
  "b64 (111971111652968685 / 281474976710656) = 6998194478310543 / 17592186044416"
  "b64 (345240599409664719267 / 140737488355328) = 2453082"
  "b64 (2453069) = 2453069"
  "b64 (4903089 / 2) = 4903089 / 2"
  "b64 (1) = 1"
  "b64 (60292137043906215 / 140737488355328) = 7536517130488277 / 17592186044416"
  "b64 (2453082) = 2453082"
  "b64 (1 / 2) = 1 / 2"
  "b64 (3 / 2) = 3 / 2"
  "b64 (4906165 / 2) = 4906165 / 2"
  "b64 (4906139 / 2) = 4906139 / 2"
  "b64 (2451545) = 2451545"
  "b64 (1 / 86400000000) = 1791001214243895 / 154742504910672534362390528"
  "b64 (232113757367799802757829687 / 154742504910672534362390528) = 6755399441107869 / 4503599627370496"
  "b64 (11047701432909084806045 / 4503599627370496) = 4906165 / 2"
  by (simp_all add: b64_def Let_def round_even_def)



lemma JD_b64_J2000: "JD_b64 J2000 = 2451545"
  by (simp add: JD_b64_def J2000_def Let_def fadd_def fsub_def fmul_def fdiv_def b64_zero
      b64_values)

lemma JD_b64_after_J2000: "JD_b64 t_after_J2000 = 2451545"
  by (simp add: JD_b64_def t_after_J2000_def Let_def fadd_def fsub_def fmul_def fdiv_def
      b64_zero b64_values)

text \<open>
  Claim C7. The Julian Date of 2000-01-01T12:00:00 is \<open>2451545.0\<close>: in exact arithmetic,
  and also as computed in binary64, where every intermediate value is exact.
\<close>

theorem JD_J2000:
  "JD \<lparr>year = 2000, month = 1, day = 1, hour = 12, minute = 0, second = 0, microsecond = 0\<rparr>
     = 2451545
   \<and> JD_b64 \<lparr>year = 2000, month = 1, day = 1, hour = 12, minute = 0, second = 0,
              microsecond = 0\<rparr> = 2451545"
  using JD_b64_J2000 by (simp add: JD_def Let_def J2000_def)

lemma JD_J2000_value: "JD J2000 = 2451545"
  by (simp add: JD_def J2000_def Let_def)

lemma valid_J2000: "valid_timestamp J2000"
  by (simp add: valid_timestamp_def J2000_def days_in_month_def)

subsection \<open>From one year to the next\<close>

text \<open>
  A step of the shifted year adds 365 days, and one more when the calendar year that ends
  in its February is a leap year: the term \<open>B\<close> of the formula is the Gregorian rule.
\<close>

lemma div_succ:
  fixes k n :: int
  assumes "0 < n"
  shows "(k + 1) div n = k div n + (if (k + 1) mod n = 0 then 1 else 0)"
proof (cases "k mod n = n - 1")
  case True
  have e: "n * (k div n) + k mod n = k" by simp
  have k1: "k + 1 = n * (k div n + 1) + 0"
    unfolding distrib_left using True e by linarith
  have "(k + 1) div n = k div n + 1"
    by (rule int_div_pos_eq [OF k1]) (use assms in simp_all)
  moreover have "(k + 1) mod n = 0"
    by (rule int_mod_pos_eq [OF k1]) (use assms in simp_all)
  ultimately show ?thesis by simp
next
  case False
  have r: "0 \<le> k mod n" "k mod n < n" using assms by simp_all
  with False have r1: "0 \<le> k mod n + 1" "k mod n + 1 < n" "k mod n + 1 \<noteq> 0" by arith+
  have k1: "k + 1 = n * (k div n) + (k mod n + 1)"
    using mult_div_mod_eq [of n k] by simp
  have "(k + 1) div n = k div n"
    by (rule int_div_pos_eq [OF k1 r1(1,2)])
  moreover have "(k + 1) mod n = k mod n + 1"
    by (rule int_mod_pos_eq [OF k1 r1(1,2)])
  ultimately show ?thesis using r1 by simp
qed

lemma mod_0_trans:
  fixes k :: int
  assumes "a dvd b" "k mod b = 0"
  shows "k mod a = 0"
proof -
  from assms(2) have "b dvd k" by (simp add: mod_eq_0_iff_dvd)
  with assms(1) have "a dvd k" by (rule dvd_trans)
  then show ?thesis by (simp add: mod_eq_0_iff_dvd)
qed

lemma div_1461: "(1461 * k) div 4 = 365 * k + k div (4::int)"
proof -
  have "1461 * k = k + 365 * k * 4" by simp
  then show ?thesis by (simp only: div_mult_self3)
qed

lemma mod_4_shift: "(Y + 4716 + 1) mod 4 = (Y + 1) mod (4::int)"
proof -
  have "Y + 4716 + 1 = (Y + 1) + 1179 * 4" by simp
  then show ?thesis by (simp only: mod_mult_self1)
qed

lemma year_base_eq:
  "year_base Z = 365 * (Z + 4716) + (Z + 4716) div 4 + (2 - Z div 100 + Z div 400)"
proof -
  have "(Z div 100) div 4 = Z div 400"
    by (simp add: div_mult2_eq [symmetric])
  then show ?thesis by (simp only: year_base_def div_1461)
qed

lemma year_base_step:
  "year_base (Y + 1) = year_base Y + 365 + (if is_leap (Y + 1) then 1 else 0)"
proof -
  define q4 q100 q400 where "q4 = (Y + 4716) div 4" and "q100 = Y div 100" and "q400 = Y div 400"
  define p4 p100 p400 where "p4 \<longleftrightarrow> (Y + 1) mod 4 = 0" and "p100 \<longleftrightarrow> (Y + 1) mod 100 = 0"
    and "p400 \<longleftrightarrow> (Y + 1) mod 400 = 0"
  have "(Y + 4716 + 1) div 4 = (Y + 4716) div 4 + (if (Y + 1) mod 4 = 0 then 1 else 0)"
    using div_succ [of 4 "Y + 4716"] by (simp only: mod_4_shift)
  moreover have "Y + 1 + 4716 = Y + 4716 + 1" by simp
  ultimately have a: "(Y + 1 + 4716) div 4 = q4 + (if p4 then 1 else 0)"
    unfolding q4_def p4_def by (simp only:)
  have b: "(Y + 1) div 100 = q100 + (if p100 then 1 else 0)"
    unfolding q100_def p100_def by (rule div_succ) simp
  have c: "(Y + 1) div 400 = q400 + (if p400 then 1 else 0)"
    unfolding q400_def p400_def by (rule div_succ) simp
  have d1: "p100" if "p400"
    using that mod_0_trans [of 100 400 "Y + 1"] unfolding p100_def p400_def by simp
  have d2: "p4" if "p100"
    using that mod_0_trans [of 4 100 "Y + 1"] unfolding p4_def p100_def by simp
  have y1: "year_base (Y + 1)
      = 365 * (Y + 1 + 4716) + (q4 + (if p4 then 1 else 0))
        + (2 - (q100 + (if p100 then 1 else 0)) + (q400 + (if p400 then 1 else 0)))"
    by (simp only: year_base_eq a b c)
  have y0: "year_base Y = 365 * (Y + 4716) + q4 + (2 - q100 + q400)"
    by (simp only: year_base_eq q4_def q100_def q400_def)
  have l: "is_leap (Y + 1) \<longleftrightarrow> p4 \<and> (\<not> p100 \<or> p400)"
    by (simp only: is_leap_def p4_def p100_def p400_def)
  show ?thesis
    unfolding y1 y0 l using d1 d2 by auto
qed

lemma year_base_mono: "y1 \<le> y2 \<Longrightarrow> year_base y1 \<le> year_base y2"
proof (induction y2 rule: int_ge_induct)
  case base
  show ?case by simp
next
  case (step i)
  then show ?case using year_base_step [of i] by (simp split: if_splits)
qed

lemma year_base_bounds:
  assumes "0 \<le> Z" "Z \<le> 9998"
  shows "1700000 \<le> year_base Z" "year_base Z \<le> 5400000"
proof -
  define q4 q100 q400 where "q4 = (Z + 4716) div 4" and "q100 = Z div 100" and "q400 = Z div 400"
  have "0 \<le> q4" "q4 \<le> Z + 4716" "0 \<le> q100" "q100 \<le> Z" "0 \<le> q400" "q400 \<le> Z"
    unfolding q4_def q100_def q400_def using assms
    by (simp_all add: pos_imp_zdiv_nonneg_iff int_div_le_self)
  moreover have "year_base Z = 365 * (Z + 4716) + q4 + (2 - q100 + q400)"
    by (simp only: year_base_eq q4_def q100_def q400_def)
  ultimately show "1700000 \<le> year_base Z" "year_base Z \<le> 5400000"
    using assms by simp_all
qed

subsection \<open>From one month to the next\<close>

text \<open>
  Within a calendar year the day number is that of the shifted year before, plus 428, plus
  the days before the month, plus the day: the floor of \<open>30.6001 * (M + 1)\<close> gives every
  month its length.
\<close>

lemma month_cases:
  fixes m :: int
  assumes "1 \<le> m" "m \<le> 12"
  shows "m = 1 \<or> m = 2 \<or> m = 3 \<or> m = 4 \<or> m = 5 \<or> m = 6 \<or> m = 7 \<or> m = 8 \<or> m = 9
      \<or> m = 10 \<or> m = 11 \<or> m = 12"
  using assms by arith

lemma day_number_year_base:
  "day_number y m d =
     (if m \<le> 2 then year_base (y - 1) else year_base y) + (306001 * ((if m \<le> 2 then m + 12 else m) + 1)) div 10000 + d"
  by (simp add: day_number_def year_base_def Let_def)

lemma day_number_form:
  assumes "1 \<le> m" "m \<le> 12"
  shows "day_number y m d = year_base (y - 1) + 428 + days_before_month y m + d"
proof -
  have s: "year_base y = year_base (y - 1) + 365 + (if is_leap y then 1 else 0)"
    using year_base_step [of "y - 1"] by simp
  from month_cases [OF assms] show ?thesis
    unfolding day_number_year_base
    by (elim disjE) (simp_all add: s days_before_month_def)
qed

lemma days_before_month_mono:
  assumes "1 \<le> m1" "m1 < m2" "m2 \<le> 12"
  shows "days_before_month y m1 + days_in_month y m1 \<le> days_before_month y m2"
proof -
  have 1: "1 \<le> m1" "m1 \<le> 12" and 2: "1 \<le> m2" "m2 \<le> 12" using assms by arith+
  from month_cases [OF 1] month_cases [OF 2] assms(2) show ?thesis
    by (elim disjE) (simp_all add: days_before_month_def days_in_month_def)
qed

lemma days_before_month_bounds:
  assumes "1 \<le> m" "m \<le> 12"
  shows "0 \<le> days_before_month y m"
    and "days_before_month y m + days_in_month y m \<le> 365 + (if is_leap y then 1 else 0)"
  using month_cases [OF assms]
  by (elim disjE; simp add: days_before_month_def days_in_month_def)+

lemma day_number_mono:
  assumes v1: "1 \<le> m1" "m1 \<le> 12" "1 \<le> d1" "d1 \<le> days_in_month y1 m1"
    and v2: "1 \<le> m2" "m2 \<le> 12" "1 \<le> d2" "d2 \<le> days_in_month y2 m2"
    and lt: "y1 < y2 \<or> (y1 = y2 \<and> (m1 < m2 \<or> (m1 = m2 \<and> d1 < d2)))"
  shows "day_number y1 m1 d1 < day_number y2 m2 d2"
proof -
  note f1 = day_number_form [OF v1(1,2), of y1 d1]
  note f2 = day_number_form [OF v2(1,2), of y2 d2]
  from lt consider "y1 < y2" | "y1 = y2" "m1 < m2" | "y1 = y2" "m1 = m2" "d1 < d2" by blast
  then show ?thesis
  proof cases
    case 1
    have "day_number y1 m1 d1 \<le> year_base (y1 - 1) + 428 + 365 + (if is_leap y1 then 1 else 0)"
      using f1 days_before_month_bounds(2) [OF v1(1,2), of y1] v1(4) by linarith
    also have "\<dots> = year_base y1 + 428"
      using year_base_step [of "y1 - 1"] by simp
    also have "\<dots> \<le> year_base (y2 - 1) + 428"
      using year_base_mono [of y1 "y2 - 1"] 1 by simp
    also have "\<dots> < day_number y2 m2 d2"
      using f2 days_before_month_bounds(1) [OF v2(1,2), of y2] v2(3) by linarith
    finally show ?thesis .
  next
    case 2
    have "days_before_month y2 m1 + days_in_month y2 m1 \<le> days_before_month y2 m2"
      by (rule days_before_month_mono [OF v1(1) 2(2) v2(2)])
    then show ?thesis
      using f1 f2 v1(4) v2(3) unfolding 2(1) by linarith
  next
    case 3
    then show ?thesis using f1 f2 by simp
  qed
qed

subsection \<open>Monotonicity\<close>

lemma usec_of_day_bounds:
  assumes "valid_timestamp t"
  shows "0 \<le> usec_of_day t" "usec_of_day t < 86400000000"
  using assms unfolding valid_timestamp_def usec_of_day_def by auto

lemma usec_of_day_mono:
  assumes "valid_timestamp t1" "valid_timestamp t2"
    and "lex_less [hour t1, minute t1, second t1, microsecond t1]
                  [hour t2, minute t2, second t2, microsecond t2]"
  shows "usec_of_day t1 < usec_of_day t2"
  using assms unfolding valid_timestamp_def usec_of_day_def
  by simp linarith

lemma JD_strict_mono:
  assumes v1: "valid_timestamp t1" and v2: "valid_timestamp t2" and b: "before t1 t2"
  shows "JD t1 < JD t2"
proof -
  from b consider
      "year t1 < year t2 \<or> (year t1 = year t2 \<and> (month t1 < month t2 \<or> (month t1 = month t2 \<and> day t1 < day t2)))"
    | "year t1 = year t2" "month t1 = month t2" "day t1 = day t2"
      "lex_less [hour t1, minute t1, second t1, microsecond t1]
                [hour t2, minute t2, second t2, microsecond t2]"
    unfolding before_def timestamp_fields_def by auto
  then show ?thesis
  proof cases
    case 1
    have "day_number (year t1) (month t1) (day t1) < day_number (year t2) (month t2) (day t2)"
      using v1 v2 1 by (intro day_number_mono) (simp_all add: valid_timestamp_def)
    then have "real_of_int (day_number (year t1) (month t1) (day t1)) + 1
        \<le> real_of_int (day_number (year t2) (month t2) (day t2))"
      by linarith
    moreover have "real_of_int (usec_of_day t1) / 86400000000 < 1"
      using usec_of_day_bounds(2) [OF v1] by simp
    moreover have "0 \<le> real_of_int (usec_of_day t2) / 86400000000"
      using usec_of_day_bounds(1) [OF v2] by simp
    ultimately show ?thesis unfolding JD_day_number by linarith
  next
    case 2
    have "usec_of_day t1 < usec_of_day t2"
      using usec_of_day_mono [OF v1 v2 2(4)] .
    then have "real_of_int (usec_of_day t1) / 86400000000 < real_of_int (usec_of_day t2) / 86400000000"
      by (simp add: divide_strict_right_mono)
    with 2 show ?thesis unfolding JD_day_number by simp
  qed
qed

lemma JD_bounds:
  assumes v: "valid_timestamp t"
  shows "1690000 \<le> JD t" "JD t \<le> 5400000"
proof -
  have m: "1 \<le> month t" "month t \<le> 12" and d: "1 \<le> day t" "day t \<le> days_in_month (year t) (month t)"
    and y: "0 \<le> year t - 1" "year t - 1 \<le> 9998"
    using v by (simp_all add: valid_timestamp_def)
  note f = day_number_form [OF m, of "year t" "day t"]
  note b = days_before_month_bounds [OF m, of "year t"]
  note yb = year_base_bounds [OF y]
  have lo: "1700000 \<le> day_number (year t) (month t) (day t)"
    using f b(1) yb(1) d(1) by linarith
  have hi: "day_number (year t) (month t) (day t) \<le> 5400000 + 428 + 366"
    using f b(2) yb(2) d(2) by (simp split: if_splits)
  have u: "0 \<le> real_of_int (usec_of_day t) / 86400000000" "real_of_int (usec_of_day t) / 86400000000 < 1"
    using usec_of_day_bounds [OF v] by simp_all
  have lo': "1700000 \<le> real_of_int (day_number (year t) (month t) (day t))"
    using lo by linarith
  have hi': "real_of_int (day_number (year t) (month t) (day t)) \<le> 5400794"
    using hi by linarith
  show "1690000 \<le> JD t" "JD t \<le> 5400000"
    unfolding JD_day_number using lo' hi' u by linarith+
qed

lemma T_bounds:
  assumes "valid_timestamp t"
  shows "\<bar>T t\<bar> \<le> 100"
proof -
  have "- 3652500 \<le> JD t - 2451545" "JD t - 2451545 \<le> 3652500"
    using JD_bounds [OF assms] by simp_all
  then show ?thesis by (simp add: T_def abs_le_iff)
qed

lemma lex_less_total:
  "length xs = length ys \<Longrightarrow> xs = ys \<or> lex_less xs ys \<or> lex_less ys xs"
  by (induction xs ys rule: list_induct2) auto

lemma timestamp_fields_inj: "timestamp_fields t1 = timestamp_fields t2 \<Longrightarrow> t1 = t2"
  by (cases t1; cases t2) (simp add: timestamp_fields_def)

lemma before_total: "t1 = t2 \<or> before t1 t2 \<or> before t2 t1"
  using lex_less_total [of "timestamp_fields t1" "timestamp_fields t2"] timestamp_fields_inj
  unfolding before_def by (auto simp: timestamp_fields_def)

text \<open>
  Among the valid timestamps, J2000.0 is the only one whose Julian century is zero, in exact
  arithmetic. As computed in binary64 the timestamps within some 20 microseconds of
  J2000.0 have the Julian Date \<open>2451545.0\<close> too (\<open>JD_b64_after_J2000\<close>), hence the Julian
  century \<open>0.0\<close>.
\<close>

lemma T_zero_iff:
  assumes "valid_timestamp t"
  shows "T t = 0 \<longleftrightarrow> t = J2000"
proof
  assume "t = J2000"
  then show "T t = 0" by (simp add: T_def JD_J2000_value)
next
  assume "T t = 0"
  then have e: "JD t = JD J2000" by (simp add: T_def JD_J2000_value)
  show "t = J2000"
  proof (rule ccontr)
    assume "t \<noteq> J2000"
    then have "before t J2000 \<or> before J2000 t" using before_total [of t J2000] by blast
    then have "JD t < JD J2000 \<or> JD J2000 < JD t"
      using JD_strict_mono [OF assms valid_J2000] JD_strict_mono [OF valid_J2000 assms] by blast
    with e show False by simp
  qed
qed







section \<open>The coefficient tables\<close>

text \<open>
  Claim C10. The table of the lunar mean longitude \<open>s\<close> has exactly four coefficients, the
  last one being \<open>1/538841.0 - 1/65194000.0\<close>, so that \<open>s\<close> is a cubic in the Julian
  centuries.
\<close>

theorem lunar_longitude_cubic:
  "map_of POLYNOMIALS ''s'' = Some lunar_longitude_coefficients
   \<and> length lunar_longitude_coefficients = 4
   \<and> lunar_longitude_coefficients ! 3 = 1 / 538841 - 1 / 65194000
   \<and> (\<forall>x. polynomial lunar_longitude_coefficients x
            = Inr (218.3164591 + 481267.88134236 * x - 0.0013268 * x ^ 2
                   + (1 / 538841 - 1 / 65194000) * x ^ 3))"
  by (simp add: POLYNOMIALS_def lunar_longitude_coefficients_def polynomial_eq
      lessThan_Suc eval_nat_numeral)

lemma py_mod_range: "0 \<le> py_mod x 360" "py_mod x 360 < 360"
proof -
  have "real_of_int \<lfloor>x / 360\<rfloor> \<le> x / 360" "x / 360 < real_of_int \<lfloor>x / 360\<rfloor> + 1"
    by linarith+
  then show "0 \<le> py_mod x 360" "py_mod x 360 < 360"
    by (simp_all add: py_mod_def field_simps)
qed

lemma py_mod_id:
  assumes "0 \<le> x" "x < 360"
  shows "py_mod x 360 = x"
proof -
  have "\<lfloor>x / 360\<rfloor> = 0" using assms by (simp add: floor_eq_iff)
  then show ?thesis by (simp add: py_mod_def)
qed

text \<open>
  The mean obliquity stays between 21 and 26 degrees as long as the Julian century is at
  most 100 in absolute value: the coefficients after the first add up to less than 2
  degrees.
\<close>

lemma obliquity_bounds:
  assumes "\<bar>Tt\<bar> \<le> 100"
  shows "21 \<le> poly_value terrestrial_obliquity_coefficients Tt"
    and "poly_value terrestrial_obliquity_coefficients Tt \<le> 26"
proof -
  define u where "u = 1 / 100 * Tt"
  have u: "\<bar>u\<bar> \<le> 1" unfolding u_def using assms by simp
  have p: "- 1 \<le> u ^ k \<and> u ^ k \<le> 1" for k
  proof -
    have "\<bar>u ^ k\<bar> \<le> 1" using u by (simp add: power_abs power_le_one)
    then show ?thesis by (simp add: abs_le_iff)
  qed
  have e: "poly_value terrestrial_obliquity_coefficients Tt
      = poly_value terrestrial_obliquity_coefficients_U u"
    unfolding terrestrial_obliquity_coefficients_def u_def by (rule poly_value_scaled)
  have l: "length terrestrial_obliquity_coefficients_U = 11"
    by (simp add: terrestrial_obliquity_coefficients_U_def)
  have x: "poly_value terrestrial_obliquity_coefficients_U u
      = s2d 23 26 21.448 0 0 - s2d 0 0 4680.93 0 0 * u ^ 1 - s2d 0 0 1.55 0 0 * u ^ 2
        + s2d 0 0 1999.25 0 0 * u ^ 3 - s2d 0 0 51.38 0 0 * u ^ 4 - s2d 0 0 249.67 0 0 * u ^ 5
        - s2d 0 0 39.05 0 0 * u ^ 6 + s2d 0 0 7.12 0 0 * u ^ 7 + s2d 0 0 27.87 0 0 * u ^ 8
        + s2d 0 0 5.79 0 0 * u ^ 9 + s2d 0 0 2.45 0 0 * u ^ 10"
    unfolding poly_value_def l sum_11
    by (simp add: terrestrial_obliquity_coefficients_U_def)
  note ps = p [of 1] p [of 2] p [of 3] p [of 4] p [of 5] p [of 6] p [of 7] p [of 8] p [of 9]
    p [of 10]
  show "21 \<le> poly_value terrestrial_obliquity_coefficients Tt"
    unfolding e x s2d_def using ps by simp
  show "poly_value terrestrial_obliquity_coefficients Tt \<le> 26"
    unfolding e x s2d_def using ps by simp
qed

section \<open>The nodal-correction angles return\<close>

subsection \<open>Trigonometry\<close>

lemma cosI_bounds:
  fixes i w N :: real
  assumes "0 \<le> i" "0 \<le> w" "i + w \<le> pi / 2"
  shows "0 \<le> cos i * cos w - sin i * sin w * cos N"
    and "cos i * cos w - sin i * sin w * cos N \<le> 1"
proof -
  have si: "0 \<le> sin i" and sw: "0 \<le> sin w"
    using assms pi_ge_two by (auto intro!: sin_ge_zero)
  then have s: "0 \<le> sin i * sin w" by simp
  have "sin i * sin w * (- 1) \<le> sin i * sin w * cos N"
    using s by (intro mult_left_mono) simp_all
  moreover have "sin i * sin w * cos N \<le> sin i * sin w * 1"
    using s by (intro mult_left_mono) simp_all
  ultimately have b: "- (sin i * sin w) \<le> sin i * sin w * cos N"
    "sin i * sin w * cos N \<le> sin i * sin w"
    by simp_all
  have "0 \<le> cos (i + w)"
    using assms by (intro cos_ge_zero) auto
  then have lo: "0 \<le> cos i * cos w - sin i * sin w" by (simp add: cos_add)
  have "cos (i - w) \<le> 1" by simp
  then have hi: "cos i * cos w + sin i * sin w \<le> 1" by (simp add: cos_diff)
  show "0 \<le> cos i * cos w - sin i * sin w * cos N" using lo b by linarith
  show "cos i * cos w - sin i * sin w * cos N \<le> 1" using hi b by linarith
qed

lemma arctan_diff_bound:
  fixes x y :: real
  assumes xy: "0 \<le> x * y" and le: "\<bar>x - y\<bar> \<le> 1 + x * y"
  shows "\<bar>arctan x - arctan y\<bar> \<le> pi / 4"
proof -
  define d where "d = arctan x - arctan y"
  have bx: "- (pi / 2) < arctan x" "arctan x < pi / 2"
    and by': "- (pi / 2) < arctan y" "arctan y < pi / 2"
    by (rule arctan_lbound arctan_ubound)+
  from xy have "(0 \<le> x \<and> 0 \<le> y) \<or> (x \<le> 0 \<and> y \<le> 0)"
    by (simp add: zero_le_mult_iff)
  then have "(0 \<le> arctan x \<and> 0 \<le> arctan y) \<or> (arctan x \<le> 0 \<and> arctan y \<le> 0)"
    by simp
  then have d: "- (pi / 2) < d" "d < pi / 2"
    unfolding d_def using bx by' by linarith+
  then have cd: "cos d \<noteq> 0" using cos_gt_zero_pi [of d] by simp
  have "tan d = (tan (arctan x) - tan (arctan y)) / (1 + tan (arctan x) * tan (arctan y))"
    unfolding d_def using cd by (intro tan_diff) (simp_all add: d_def)
  then have td: "tan d = (x - y) / (1 + x * y)" by (simp add: tan_arctan)
  have pos: "0 < 1 + x * y" using xy by linarith
  have "\<bar>tan d\<bar> \<le> 1"
    unfolding td using le pos by (simp add: abs_divide)
  then have "- 1 \<le> tan d" "tan d \<le> 1" by linarith+
  then have "arctan (- 1) \<le> arctan (tan d)" "arctan (tan d) \<le> arctan 1"
    by (simp_all only: arctan_le_iff)
  then have "- (pi / 4) \<le> d" "d \<le> pi / 4"
    using d by (simp_all add: arctan_tan arctan_minus arctan_one)
  then show ?thesis unfolding d_def by linarith
qed

lemma quad_bound:
  fixes c1 c2 t :: real
  assumes "0 < c2" "c2 \<le> c1" "c1 \<le> 5 * c2"
  shows "\<bar>c1 * t - c2 * t\<bar> \<le> 1 + (c1 * t) * (c2 * t)"
proof -
  define d where "d = c1 - c2"
  have d: "0 \<le> d" "d \<le> 4 * c2" "d \<le> c1" using assms by (simp_all add: d_def)
  have "d * d \<le> (4 * c2) * d" using d by (intro mult_right_mono) simp_all
  also have "\<dots> \<le> (4 * c2) * c1" using d assms by (intro mult_left_mono) simp_all
  finally have dd: "d\<^sup>2 \<le> 4 * (c1 * c2)" by (simp add: power2_eq_square mult_ac)
  define p where "p = c1 * c2 * t\<^sup>2"
  have p: "0 \<le> p" unfolding p_def using assms by simp
  have "(d * t)\<^sup>2 = d\<^sup>2 * t\<^sup>2" by (simp add: power_mult_distrib)
  also have "\<dots> \<le> (4 * (c1 * c2)) * t\<^sup>2" using dd by (intro mult_right_mono) simp_all
  also have "\<dots> = 4 * p" by (simp add: p_def)
  also have "\<dots> \<le> 4 * p + (1 - p)\<^sup>2" by simp
  also have "\<dots> = (1 + p)\<^sup>2" by (simp add: power2_eq_square algebra_simps)
  finally have "\<bar>d * t\<bar> \<le> 1 + p"
    using p by (simp add: power2_le_iff_abs_le)
  moreover have "d * t = c1 * t - c2 * t" by (simp add: d_def algebra_simps)
  moreover have "p = (c1 * t) * (c2 * t)" by (simp add: p_def power2_eq_square)
  ultimately show ?thesis by simp
qed

lemma ratio_bound:
  fixes i a :: real
  assumes i: "0 < i" "i \<le> a" and a: "a \<le> pi / 6"
  defines "c1 \<equiv> cos a / cos (a + i)" and "c2 \<equiv> sin a / sin (a + i)"
  shows "cos (a + i) \<noteq> 0" "sin (a + i) \<noteq> 0" "0 < c2" "c2 \<le> c1" "c1 \<le> 5 * c2"
proof -
  have a0: "0 < a" using i by linarith
  have b: "0 < a + i" "a + i < pi / 2" using i a pi_gt_zero by linarith+
  have cb: "0 < cos (a + i)" using b by (intro cos_gt_zero)
  have sb: "0 < sin (a + i)" using b by (intro sin_gt_zero2)
  have sa: "0 < sin a" using a0 a pi_gt_zero by (intro sin_gt_zero2) linarith+
  have ca: "0 < cos a" using a0 a pi_gt_zero by (intro cos_gt_zero) linarith+
  have si: "0 < sin i" using i a pi_gt_zero by (intro sin_gt_zero2) linarith+
  have ci: "0 < cos i" using i a pi_gt_zero by (intro cos_gt_zero) linarith+
  show "cos (a + i) \<noteq> 0" "sin (a + i) \<noteq> 0" using cb sb by simp_all
  show "0 < c2" unfolding c2_def using sa sb by simp
  have "sin a \<le> sin (a + i)"
    using i a0 b by (intro sin_monotone_2pi_le) linarith+
  then have c2_1: "c2 \<le> 1" unfolding c2_def using sb by simp
  have "cos (a + i) \<le> cos a"
    using i a0 b pi_gt_zero by (intro cos_monotone_0_pi_le) linarith+
  then have c1_1: "1 \<le> c1" unfolding c1_def using cb by simp
  show "c2 \<le> c1" using c2_1 c1_1 by linarith
  have "sin a \<le> sin (pi / 6)"
    using a a0 pi_gt_zero by (intro sin_monotone_2pi_le) linarith+
  then have sa_half: "sin a \<le> 1 / 2" by (simp add: sin_30)
  have sin_i_a: "sin i \<le> sin a"
    using i a pi_gt_zero by (intro sin_monotone_2pi_le) linarith+
  have cos_a_i: "cos a \<le> cos i"
    using i a pi_gt_zero by (intro cos_monotone_0_pi_le) linarith+
  have sa2: "(sin a)\<^sup>2 \<le> 1 / 4"
  proof -
    have "(sin a)\<^sup>2 \<le> (1 / 2)\<^sup>2" using sa sa_half by (intro power_mono) simp_all
    then show ?thesis by (simp add: power2_eq_square)
  qed
  have ca2: "(cos a)\<^sup>2 = 1 - (sin a)\<^sup>2"
    using sin_cos_squared_add [of a] by linarith
  text \<open>the key inequality: cos a * sin (a + i) \<le> 5 * sin a * cos (a + i)\<close>
  have l: "(1 + 4 * (sin a)\<^sup>2) * sin i \<le> 2 * sin a"
  proof -
    have "(1 + 4 * (sin a)\<^sup>2) * sin i \<le> 2 * sin i"
      using sa2 si by (intro mult_right_mono) simp_all
    with sin_i_a show ?thesis by linarith
  qed
  have r: "3 * sin a \<le> 4 * sin a * cos a * cos i"
  proof -
    have "3 * sin a \<le> (4 * (cos a)\<^sup>2) * sin a"
      using sa2 ca2 sa by (intro mult_right_mono) simp_all
    also have "\<dots> = (4 * sin a * cos a) * cos a" by (simp add: power2_eq_square)
    also have "\<dots> \<le> (4 * sin a * cos a) * cos i"
      using cos_a_i sa ca by (intro mult_left_mono) simp_all
    finally show ?thesis .
  qed
  have "(1 + 4 * (sin a)\<^sup>2) * sin i \<le> 4 * sin a * cos a * cos i"
    using l r sa by linarith
  moreover have "(cos a)\<^sup>2 + 5 * (sin a)\<^sup>2 = 1 + 4 * (sin a)\<^sup>2"
    using ca2 by linarith
  ultimately have "((cos a)\<^sup>2 + 5 * (sin a)\<^sup>2) * sin i \<le> 4 * sin a * cos a * cos i"
    by (simp only:)
  then have "cos a * sin (a + i) \<le> 5 * sin a * cos (a + i)"
    by (simp add: sin_add cos_add power2_eq_square algebra_simps)
  then have "cos a / cos (a + i) \<le> 5 * (sin a / sin (a + i))"
    using cb sb by (simp add: field_simps)
  then show "c1 \<le> 5 * c2" unfolding c1_def c2_def .
qed

subsection \<open>The five functions on the angles \<open>astro\<close> passes\<close>

text \<open>
  For an inclination \<open>i\<close> and an obliquity \<open>omega\<close> with \<open>0 < i\<close>, \<open>3 i \<le> omega\<close>,
  \<open>omega - i \<le> 60\<close> and \<open>omega + i \<le> 90\<close> degrees, and any node \<open>N\<close>: the argument of
  \<open>math.acos\<close> is in \<open>[0, 1]\<close>, no divisor is zero, and the five functions return.
\<close>

lemma radians_degrees [simp]: "radians (degrees x) = x"
  by (simp add: radians_def degrees_def)

lemma nodal_returns:
  fixes N0 i0 w0 :: real
  assumes i0: "0 < i0" and w1: "3 * i0 \<le> w0" and w2: "w0 - i0 \<le> 60" and w3: "w0 + i0 \<le> 90"
  shows "\<exists>rI rxi rnu rnup rnupp.
           astro_I N0 i0 w0 = Inr rI \<and> astro_xi N0 i0 w0 = Inr rxi \<and> astro_nu N0 i0 w0 = Inr rnu
           \<and> astro_nup N0 i0 w0 = Inr rnup \<and> astro_nupp N0 i0 w0 = Inr rnupp"
proof -
  define i w a N5 where "i = radians i0" and "w = radians w0" and "a = (w - i) / 2"
    and "N5 = radians N0 * 0.5"
  have a_eq: "0.5 * (w - i) = a" and b_eq: "0.5 * (w + i) = a + i"
    unfolding a_def by argo+
  have i_pos: "0 < i" unfolding i_def radians_def using i0 by simp
  have "a - i = (w0 - 3 * i0) * (pi / 360)"
    by (simp add: a_def i_def w_def radians_def field_simps)
  moreover have "0 \<le> (w0 - 3 * i0) * (pi / 360)" using w1 by simp
  ultimately have i_a: "i \<le> a" by linarith
  have "pi / 6 - a = (60 - (w0 - i0)) * (pi / 360)"
    by (simp add: a_def i_def w_def radians_def field_simps)
  moreover have "0 \<le> (60 - (w0 - i0)) * (pi / 360)" using w2 by simp
  ultimately have a_le: "a \<le> pi / 6" by linarith
  have "pi / 2 - (i + w) = (90 - (w0 + i0)) * (pi / 180)"
    by (simp add: i_def w_def radians_def field_simps)
  moreover have "0 \<le> (90 - (w0 + i0)) * (pi / 180)" using w3 by simp
  ultimately have iw: "i + w \<le> pi / 2" by linarith
  have w_pos: "0 \<le> w" using i_pos i_a unfolding a_def by argo
  define c1 c2 where "c1 = cos a / cos (a + i)" and "c2 = sin a / sin (a + i)"
  note rb = ratio_bound [OF i_pos i_a a_le, folded c1_def c2_def]
  define cosI where "cosI = cos i * cos w - sin i * sin w * cos (radians N0)"
  have cI: "0 \<le> cosI" "cosI \<le> 1"
    unfolding cosI_def using cosI_bounds [of i w "radians N0"] i_pos w_pos iw by simp_all
  define I where "I = arccos cosI"
  have "0 \<le> I" unfolding I_def using cI by (intro arccos_lbound) linarith+
  moreover have "I \<le> pi / 2" unfolding I_def using cI by (intro arccos_le_pi2)
  ultimately have I: "0 \<le> I" "I \<le> pi / 2" .
  have rI: "astro_I N0 i0 w0 = Inr (degrees I)"
    unfolding astro_I_def Let_def py_acos_def bind_err_def I_def cosI_def i_def w_def
    using cI [unfolded cosI_def i_def w_def] by simp
  define nu where "nu = arctan (c1 * tan N5) - arctan (c2 * tan N5)"
  have q1: "py_div (cos (0.5 * (w - i))) (cos (0.5 * (w + i))) = Inr c1"
    unfolding b_eq a_eq py_div_def c1_def using rb(1) by simp
  have q2: "py_div (sin (0.5 * (w - i))) (sin (0.5 * (w + i))) = Inr c2"
    unfolding b_eq a_eq py_div_def c2_def using rb(2) by simp
  have rxi: "astro_xi N0 i0 w0
      = Inr (degrees (- ((arctan (c1 * tan N5) - N5) + (arctan (c2 * tan N5) - N5))))"
    unfolding astro_xi_def Let_def i_def [symmetric] w_def [symmetric] N5_def [symmetric] q1 q2
    by (simp add: bind_err_def)
  have rnu: "astro_nu N0 i0 w0 = Inr (degrees nu)"
    unfolding astro_nu_def Let_def i_def [symmetric] w_def [symmetric] N5_def [symmetric] q1 q2
    by (simp add: bind_err_def nu_def)
  have "0 \<le> (c1 * tan N5) * (c2 * tan N5)"
  proof -
    have e: "(c1 * tan N5) * (c2 * tan N5) = (c1 * c2) * (tan N5 * tan N5)"
      by (simp add: mult_ac)
    have "0 \<le> c1 * c2" using rb(3,4) by simp
    moreover have "0 \<le> tan N5 * tan N5" by (rule zero_le_square)
    ultimately show ?thesis unfolding e by (rule mult_nonneg_nonneg)
  qed
  then have nu: "\<bar>nu\<bar> \<le> pi / 4"
    unfolding nu_def using quad_bound [OF rb(3,4,5), of "tan N5"] by (intro arctan_diff_bound)
  have cnu: "0 \<le> cos nu"
    using nu by (intro cos_ge_zero) linarith+
  have c2nu: "0 \<le> cos (2 * nu)"
    using nu by (intro cos_ge_zero) linarith+
  have s2I: "0 \<le> sin (2 * I)"
    using I by (intro sin_ge_zero) linarith+
  have d1: "sin (2 * I) * cos nu + 0.3347 \<noteq> 0"
  proof -
    have "0 \<le> sin (2 * I) * cos nu" using s2I cnu by simp
    then have "0 < sin (2 * I) * cos nu + 0.3347" by (intro add_nonneg_pos) simp_all
    then show ?thesis by simp
  qed
  have d2: "(sin I)\<^sup>2 * cos (2 * nu) + 0.0727 \<noteq> 0"
  proof -
    have "0 \<le> (sin I)\<^sup>2 * cos (2 * nu)" using c2nu by simp
    then have "0 < (sin I)\<^sup>2 * cos (2 * nu) + 0.0727" by (intro add_nonneg_pos) simp_all
    then show ?thesis by simp
  qed
  have rnup: "\<exists>r. astro_nup N0 i0 w0 = Inr r"
    unfolding astro_nup_def rI rnu using d1 by (simp add: bind_err_def py_div_def Let_def)
  have rnupp: "\<exists>r. astro_nupp N0 i0 w0 = Inr r"
    unfolding astro_nupp_def rI rnu using d2 by (simp add: bind_err_def py_div_def Let_def)
  from rI rxi rnu rnup rnupp show ?thesis by blast
qed

lemma arg_i_eq: "arg_i t = 5.145"
proof -
  have "poly_value lunar_inclination_coefficients (T t) = 5.145"
    by (simp add: poly_value_def lunar_inclination_coefficients_def)
  then show ?thesis unfolding arg_i_def by (simp add: py_mod_id)
qed

lemma arg_omega_bounds:
  assumes "valid_timestamp t"
  shows "21 \<le> arg_omega t" "arg_omega t \<le> 26"
proof -
  note b = obliquity_bounds [OF T_bounds [OF assms]]
  have "py_mod (poly_value terrestrial_obliquity_coefficients (T t)) 360
      = poly_value terrestrial_obliquity_coefficients (T t)"
    using b by (intro py_mod_id) linarith+
  then show "21 \<le> arg_omega t" "arg_omega t \<le> 26"
    unfolding arg_omega_def using b by simp_all
qed

section \<open>The parameter set\<close>

subsection \<open>What \<open>astro\<close> returns, and when\<close>

lemma poly_loop_eq:
  "Tt \<noteq> 0 \<Longrightarrow>
   poly_loop ps Tt a = Inr (foldl (\<lambda>a (name, cs). a(name \<mapsto> poly_param cs Tt)) a ps)"
  by (induction ps arbitrary: a)
     (auto simp: polynomial_value d_polynomial_value bind_err_def poly_param_def)

lemma poly_loop_zero: "cs \<noteq> [] \<Longrightarrow> poly_loop ((name, cs) # rest) 0 a = Inl ZeroDivisionError"
  by (simp add: polynomial_value d_polynomial_zero bind_err_def)

lemma astro_T_zero:
  assumes "T t = 0"
  shows "astro t = Inl ZeroDivisionError"
proof -
  have "lunar_longitude_coefficients \<noteq> []"
    by (simp add: lunar_longitude_coefficients_def)
  then have "poly_loop POLYNOMIALS 0 Map.empty = Inl ZeroDivisionError"
    unfolding POLYNOMIALS_def by (rule poly_loop_zero)
  then show ?thesis
    by (simp add: astro_def assms bind_err_def)
qed

lemma poly_params_simps:
  "poly_params Tt ''s'' = Some (poly_param lunar_longitude_coefficients Tt)"
  "poly_params Tt ''h'' = Some (poly_param solar_longitude_coefficients Tt)"
  "poly_params Tt ''p'' = Some (poly_param lunar_perigee_coefficients Tt)"
  "poly_params Tt ''N'' = Some (poly_param lunar_node_coefficients Tt)"
  "poly_params Tt ''pp'' = Some (poly_param solar_perigee_coefficients Tt)"
  "poly_params Tt ''90'' = Some (poly_param [90] Tt)"
  "poly_params Tt ''omega'' = Some (poly_param terrestrial_obliquity_coefficients Tt)"
  "poly_params Tt ''i'' = Some (poly_param lunar_inclination_coefficients Tt)"
  by (simp_all add: poly_params_def POLYNOMIALS_def)

lemma strip_names:
  "strip (CHR ''_'') ''_I'' = ''I''" "strip (CHR ''_'') ''_xi'' = ''xi''"
  "strip (CHR ''_'') ''_nu'' = ''nu''" "strip (CHR ''_'') ''_nup'' = ''nup''"
  "strip (CHR ''_'') ''_nupp'' = ''nupp''"
  by (simp_all add: strip_def)

lemma astro_eq:
  assumes "T t \<noteq> 0"
  shows "astro t =
     bind_err (astro_I (arg_N t) (arg_i t) (arg_omega t)) (\<lambda>rI.
     bind_err (astro_xi (arg_N t) (arg_i t) (arg_omega t)) (\<lambda>rxi.
     bind_err (astro_nu (arg_N t) (arg_i t) (arg_omega t)) (\<lambda>rnu.
     bind_err (astro_nup (arg_N t) (arg_i t) (arg_omega t)) (\<lambda>rnup.
     bind_err (astro_nupp (arg_N t) (arg_i t) (arg_omega t)) (\<lambda>rnupp.
       Inr (astro_result t rI rxi rnu rnup rnupp))))))"
proof -
  have p: "poly_loop POLYNOMIALS (T t) Map.empty = Inr (poly_params (T t))"
    using assms by (simp add: poly_loop_eq poly_params_def)
  show ?thesis
    unfolding astro_def Let_def p
    by (simp add: bind_err_def lookup_def poly_params_simps nodal_functions_def strip_names
        arg_N_def arg_i_def arg_omega_def poly_param_def num_def astro_result_def nodal_param_def
        split: sum.splits)
qed

lemma astro_returns:
  assumes v: "valid_timestamp t" and nz: "T t \<noteq> 0"
  shows "\<exists>rI rxi rnu rnup rnupp.
           astro_I (arg_N t) (arg_i t) (arg_omega t) = Inr rI
           \<and> astro_xi (arg_N t) (arg_i t) (arg_omega t) = Inr rxi
           \<and> astro_nu (arg_N t) (arg_i t) (arg_omega t) = Inr rnu
           \<and> astro_nup (arg_N t) (arg_i t) (arg_omega t) = Inr rnup
           \<and> astro_nupp (arg_N t) (arg_i t) (arg_omega t) = Inr rnupp
           \<and> astro t = Inr (astro_result t rI rxi rnu rnup rnupp)"
proof -
  note w = arg_omega_bounds [OF v]
  have "\<exists>rI rxi rnu rnup rnupp.
           astro_I (arg_N t) (arg_i t) (arg_omega t) = Inr rI
           \<and> astro_xi (arg_N t) (arg_i t) (arg_omega t) = Inr rxi
           \<and> astro_nu (arg_N t) (arg_i t) (arg_omega t) = Inr rnu
           \<and> astro_nup (arg_N t) (arg_i t) (arg_omega t) = Inr rnup
           \<and> astro_nupp (arg_N t) (arg_i t) (arg_omega t) = Inr rnupp"
    using w by (intro nodal_returns) (simp_all add: arg_i_eq)
  then obtain rI rxi rnu rnup rnupp where r:
    "astro_I (arg_N t) (arg_i t) (arg_omega t) = Inr rI"
    "astro_xi (arg_N t) (arg_i t) (arg_omega t) = Inr rxi"
    "astro_nu (arg_N t) (arg_i t) (arg_omega t) = Inr rnu"
    "astro_nup (arg_N t) (arg_i t) (arg_omega t) = Inr rnup"
    "astro_nupp (arg_N t) (arg_i t) (arg_omega t) = Inr rnupp"
    by blast
  have "astro t = Inr (astro_result t rI rxi rnu rnup rnupp)"
    unfolding astro_eq [OF nz] r by (simp add: bind_err_def)
  with r show ?thesis by blast
qed

lemma astro_inverse:
  assumes "astro t = Inr a"
  shows "T t \<noteq> 0"
    and "\<exists>rI rxi rnu rnup rnupp.
           astro_I (arg_N t) (arg_i t) (arg_omega t) = Inr rI
           \<and> astro_xi (arg_N t) (arg_i t) (arg_omega t) = Inr rxi
           \<and> astro_nu (arg_N t) (arg_i t) (arg_omega t) = Inr rnu
           \<and> astro_nup (arg_N t) (arg_i t) (arg_omega t) = Inr rnup
           \<and> astro_nupp (arg_N t) (arg_i t) (arg_omega t) = Inr rnupp
           \<and> a = astro_result t rI rxi rnu rnup rnupp"
proof -
  show nz: "T t \<noteq> 0" using assms astro_T_zero [of t] by auto
  show "\<exists>rI rxi rnu rnup rnupp.
           astro_I (arg_N t) (arg_i t) (arg_omega t) = Inr rI
           \<and> astro_xi (arg_N t) (arg_i t) (arg_omega t) = Inr rxi
           \<and> astro_nu (arg_N t) (arg_i t) (arg_omega t) = Inr rnu
           \<and> astro_nup (arg_N t) (arg_i t) (arg_omega t) = Inr rnup
           \<and> astro_nupp (arg_N t) (arg_i t) (arg_omega t) = Inr rnupp
           \<and> a = astro_result t rI rxi rnu rnup rnupp"
    using assms unfolding astro_eq [OF nz]
    by (auto simp: bind_err_def split: sum.splits)
qed

lemma astro_defined_iff:
  assumes "valid_timestamp t"
  shows "(\<exists>a. astro t = Inr a) \<longleftrightarrow> t \<noteq> J2000"
proof
  assume "\<exists>a. astro t = Inr a"
  then have "T t \<noteq> 0" using astro_inverse(1) by blast
  then show "t \<noteq> J2000" using T_zero_iff [OF assms] by simp
next
  assume "t \<noteq> J2000"
  then have "T t \<noteq> 0" using T_zero_iff [OF assms] by simp
  from astro_returns [OF assms this] show "\<exists>a. astro t = Inr a" by blast
qed

lemma astro_result_entries:
  "astro_result t rI rxi rnu rnup rnupp ''s'' = Some (poly_param lunar_longitude_coefficients (T t))"
  "astro_result t rI rxi rnu rnup rnupp ''h'' = Some (poly_param solar_longitude_coefficients (T t))"
  "astro_result t rI rxi rnu rnup rnupp ''p'' = Some (poly_param lunar_perigee_coefficients (T t))"
  "astro_result t rI rxi rnu rnup rnupp ''N'' = Some (poly_param lunar_node_coefficients (T t))"
  "astro_result t rI rxi rnu rnup rnupp ''pp'' = Some (poly_param solar_perigee_coefficients (T t))"
  "astro_result t rI rxi rnu rnup rnupp ''90'' = Some (poly_param [90] (T t))"
  "astro_result t rI rxi rnu rnup rnupp ''omega''
     = Some (poly_param terrestrial_obliquity_coefficients (T t))"
  "astro_result t rI rxi rnu rnup rnupp ''i'' = Some (poly_param lunar_inclination_coefficients (T t))"
  "astro_result t rI rxi rnu rnup rnupp ''I'' = Some (nodal_param rI)"
  "astro_result t rI rxi rnu rnup rnupp ''xi'' = Some (nodal_param rxi)"
  "astro_result t rI rxi rnu rnup rnupp ''nu'' = Some (nodal_param rnu)"
  "astro_result t rI rxi rnu rnup rnupp ''nup'' = Some (nodal_param rnup)"
  "astro_result t rI rxi rnu rnup rnupp ''nupp'' = Some (nodal_param rnupp)"
  "astro_result t rI rxi rnu rnup rnupp ''T+h-s'' =
     Some \<lparr>val = (JD t - real_of_int \<lfloor>JD t\<rfloor>) * 360
                   + val (poly_param solar_longitude_coefficients (T t))
                   - val (poly_param lunar_longitude_coefficients (T t)),
           speed = Some (15 + poly_deriv solar_longitude_coefficients (T t) * dT_dHour
                         - poly_deriv lunar_longitude_coefficients (T t) * dT_dHour)\<rparr>"
  "astro_result t rI rxi rnu rnup rnupp ''P'' =
     Some \<lparr>val = py_mod (val (poly_param lunar_perigee_coefficients (T t)) - val (nodal_param rxi)) 360,
           speed = None\<rparr>"
  by (simp_all add: astro_result_def poly_params_simps poly_param_def nodal_param_def)

subsection \<open>The entries\<close>

lemma poly_param_90: "poly_param [90] x = \<lparr>val = 90, speed = Some 0\<rparr>"
  by (simp add: poly_param_def poly_value_def poly_deriv_def py_mod_id)

lemma val_poly_param_range: "0 \<le> val (poly_param cs x)" "val (poly_param cs x) < 360"
  by (simp_all add: poly_param_def py_mod_range)

lemma val_nodal_param_range: "0 \<le> val (nodal_param r)" "val (nodal_param r) < 360"
  by (simp_all add: nodal_param_def py_mod_range)

lemma astro_90_entry:
  assumes "astro t = Inr a"
  shows "a ''90'' = Some \<lparr>val = 90, speed = Some 0\<rparr>"
  using astro_inverse(2) [OF assms] by (auto simp: astro_result_entries poly_param_90)

lemma astro_P_entry:
  assumes "astro t = Inr a"
  shows "\<exists>p xi. a ''p'' = Some p \<and> a ''xi'' = Some xi
           \<and> a ''P'' = Some \<lparr>val = py_mod (val p - val xi) 360, speed = None\<rparr>"
  using astro_inverse(2) [OF assms] by (auto simp: astro_result_entries)

lemma astro_T_h_s_entry:
  assumes "astro t = Inr a"
  shows "\<exists>h s sh ss. a ''h'' = Some h \<and> a ''s'' = Some s \<and> speed h = Some sh \<and> speed s = Some ss
           \<and> a ''T+h-s'' = Some \<lparr>val = (JD t - real_of_int \<lfloor>JD t\<rfloor>) * 360 + val h - val s,
                                   speed = Some (15 + sh - ss)\<rparr>"
  using astro_inverse(2) [OF assms]
  by (auto simp: astro_result_entries) (simp add: poly_param_def)

lemma others_in_range_update:
  "others_in_range m \<Longrightarrow> k = ''T+h-s'' \<or> in_range v \<Longrightarrow> others_in_range (m(k \<mapsto> v))"
  by (auto simp: others_in_range_def)

lemma others_in_range_foldl:
  "others_in_range m \<Longrightarrow>
   others_in_range (foldl (\<lambda>a (name, cs). a(name \<mapsto> poly_param cs Tt)) m ps)"
proof (induction ps arbitrary: m)
  case Nil
  then show ?case by simp
next
  case (Cons x ps)
  obtain name cs where x: "x = (name, cs)" by (cases x)
  have "others_in_range (m(name \<mapsto> poly_param cs Tt))"
    using Cons.prems
    by (rule others_in_range_update) (simp add: in_range_def val_poly_param_range)
  from Cons.IH [OF this] show ?case by (simp add: x)
qed

lemma others_in_range_result: "others_in_range (astro_result t rI rxi rnu rnup rnupp)"
proof -
  have "others_in_range (poly_params (T t))"
    unfolding poly_params_def by (rule others_in_range_foldl) (simp add: others_in_range_def)
  then show ?thesis
    unfolding astro_result_def
    by (intro others_in_range_update) (simp_all add: in_range_def val_nodal_param_range py_mod_range)
qed

lemma astro_values_in_range:
  assumes "astro t = Inr a" and "k \<noteq> ''T+h-s''" and "a k = Some p"
  shows "0 \<le> val p \<and> val p < 360"
proof -
  from astro_inverse(2) [OF assms(1)] obtain rI rxi rnu rnup rnupp
    where a: "a = astro_result t rI rxi rnu rnup rnupp" by blast
  have "others_in_range a" unfolding a by (rule others_in_range_result)
  with assms(2,3) show ?thesis unfolding others_in_range_def in_range_def by blast
qed

subsection \<open>Two timestamps where \<open>T+h-s\<close> leaves \<open>[0, 360)\<close>\<close>

lemma valid_t_11h: "valid_timestamp t_11h"
  by (simp add: valid_timestamp_def t_11h_def days_in_month_def)

lemma JD_t_11h: "JD t_11h = 58837079 / 24"
  by (simp add: JD_def t_11h_def Let_def)

lemma T_t_11h: "T t_11h = - 1 / 876600"
  by (simp add: T_def JD_t_11h)

lemma h_t_11h: "280 \<le> poly_value solar_longitude_coefficients (T t_11h)"
  "poly_value solar_longitude_coefficients (T t_11h) < 281"
  unfolding solar_longitude_value T_t_11h by (simp_all add: power2_eq_square)

lemma s_t_11h: "217 \<le> poly_value lunar_longitude_coefficients (T t_11h)"
  "poly_value lunar_longitude_coefficients (T t_11h) < 218"
  unfolding lunar_longitude_value T_t_11h by (simp_all add: power2_eq_square power3_eq_cube)

lemma valid_t_jan8: "valid_timestamp t_jan8"
  by (simp add: valid_timestamp_def t_jan8_def days_in_month_def)

lemma JD_t_jan8: "JD t_jan8 = 2451552"
  by (simp add: JD_def t_jan8_def Let_def)

lemma T_t_jan8: "T t_jan8 = 7 / 36525"
  by (simp add: T_def JD_t_jan8)

lemma h_t_jan8: "287 \<le> poly_value solar_longitude_coefficients (T t_jan8)"
  "poly_value solar_longitude_coefficients (T t_jan8) < 288"
  unfolding solar_longitude_value T_t_jan8 by (simp_all add: power2_eq_square)

lemma s_t_jan8: "310 \<le> poly_value lunar_longitude_coefficients (T t_jan8)"
  "poly_value lunar_longitude_coefficients (T t_jan8) < 311"
  unfolding lunar_longitude_value T_t_jan8 by (simp_all add: power2_eq_square power3_eq_cube)

text \<open>
  Claim C1. Every angular value of the parameter set \<open>astro\<close> returns is said to lie in
  \<open>[0, 360)\<close>, the value of \<open>T+h-s\<close> being renormalised after the linear combination. The
  source stores \<open>hour.value + a['h'].value - a['s'].value\<close> as it is: at
  2000-01-01T11:00:00 the hour angle is 345 degrees, \<open>h\<close> is above 280 and \<open>s\<close> below 218, and
  the value of \<open>T+h-s\<close> is above 360. Every other entry is in range
  (\<open>astro_values_in_range\<close>).
\<close>

theorem astro_T_h_s_not_normalized:
  "\<exists>a p. astro t_11h = Inr a \<and> a ''T+h-s'' = Some p \<and> 360 \<le> val p"
proof -
  have nz: "T t_11h \<noteq> 0" by (simp add: T_t_11h)
  from astro_returns [OF valid_t_11h nz] obtain rI rxi rnu rnup rnupp
    where a: "astro t_11h = Inr (astro_result t_11h rI rxi rnu rnup rnupp)" by blast
  have fl: "\<lfloor>JD t_11h\<rfloor> = 2451544" unfolding JD_t_11h by simp
  have h: "py_mod (poly_value solar_longitude_coefficients (T t_11h)) 360
      = poly_value solar_longitude_coefficients (T t_11h)"
    using h_t_11h by (intro py_mod_id) linarith+
  have s: "py_mod (poly_value lunar_longitude_coefficients (T t_11h)) 360
      = poly_value lunar_longitude_coefficients (T t_11h)"
    using s_t_11h by (intro py_mod_id) linarith+
  have "360 \<le> (JD t_11h - real_of_int \<lfloor>JD t_11h\<rfloor>) * 360
      + py_mod (poly_value solar_longitude_coefficients (T t_11h)) 360
      - py_mod (poly_value lunar_longitude_coefficients (T t_11h)) 360"
    unfolding h s fl using h_t_11h(1) s_t_11h(2) by (simp add: JD_t_11h)
  then show ?thesis unfolding a by (simp add: astro_result_def)
qed

text \<open>
  Claim C3. The value of \<open>T+h-s\<close> is said to be
  \<open>(hourAngle.value + h.value - s.value) mod 360\<close> and its speed \<open>15.0 + h.speed - s.speed\<close>.
  The speed is; the value is the sum without the modulo (\<open>astro_T_h_s_entry\<close>). At
  2000-01-08T12:00:00 the hour angle is 0, \<open>h\<close> is below 288 and \<open>s\<close> above 310: the value
  stored is negative, and differs from its remainder modulo 360.
\<close>

theorem astro_T_h_s_differs_from_mod:
  "\<exists>a p h s sh ss. astro t_jan8 = Inr a \<and> a ''T+h-s'' = Some p \<and> a ''h'' = Some h \<and> a ''s'' = Some s
     \<and> speed h = Some sh \<and> speed s = Some ss
     \<and> val p = (JD t_jan8 - real_of_int \<lfloor>JD t_jan8\<rfloor>) * 360 + val h - val s
     \<and> val p < 0
     \<and> val p \<noteq> py_mod ((JD t_jan8 - real_of_int \<lfloor>JD t_jan8\<rfloor>) * 360 + val h - val s) 360
     \<and> speed p = Some (15 + sh - ss)"
proof -
  have nz: "T t_jan8 \<noteq> 0" by (simp add: T_t_jan8)
  from astro_returns [OF valid_t_jan8 nz] obtain a where a: "astro t_jan8 = Inr a" by blast
  from astro_T_h_s_entry [OF a] obtain h s sh ss where e:
    "a ''h'' = Some h" "a ''s'' = Some s" "speed h = Some sh" "speed s = Some ss"
    "a ''T+h-s'' = Some \<lparr>val = (JD t_jan8 - real_of_int \<lfloor>JD t_jan8\<rfloor>) * 360 + val h - val s,
                          speed = Some (15 + sh - ss)\<rparr>"
    by blast
  from astro_inverse(2) [OF a] e(1,2)
  have vh: "val h = py_mod (poly_value solar_longitude_coefficients (T t_jan8)) 360"
    and vs: "val s = py_mod (poly_value lunar_longitude_coefficients (T t_jan8)) 360"
    by (auto simp: astro_result_entries poly_param_def)
  have h: "val h = poly_value solar_longitude_coefficients (T t_jan8)"
    unfolding vh using h_t_jan8 by (intro py_mod_id) linarith+
  have s: "val s = poly_value lunar_longitude_coefficients (T t_jan8)"
    unfolding vs using s_t_jan8 by (intro py_mod_id) linarith+
  have neg: "(JD t_jan8 - real_of_int \<lfloor>JD t_jan8\<rfloor>) * 360 + val h - val s < 0"
    unfolding h s using h_t_jan8(2) s_t_jan8(1) by (simp add: JD_t_jan8)
  moreover have "0 \<le> py_mod ((JD t_jan8 - real_of_int \<lfloor>JD t_jan8\<rfloor>) * 360 + val h - val s) 360"
    by (rule py_mod_range)
  ultimately have "(JD t_jan8 - real_of_int \<lfloor>JD t_jan8\<rfloor>) * 360 + val h - val s
      \<noteq> py_mod ((JD t_jan8 - real_of_int \<lfloor>JD t_jan8\<rfloor>) * 360 + val h - val s) 360"
    by linarith
  with a e neg show ?thesis by simp
qed

text \<open>
  Claim C4. The entry \<open>90\<close> is said to have the value \<open>90.0\<close> and the speed \<open>0.0\<close> for every
  valid timestamp. It has whenever \<open>astro\<close> returns (\<open>astro_90_entry\<close>), which in exact
  arithmetic it does at every valid timestamp but one (\<open>astro_defined_iff\<close>): at J2000.0
  the Julian century is \<open>0.0\<close> (in exact arithmetic and in binary64), the derivative of
  the constant polynomial evaluates \<open>0.0 ** -1\<close>, and \<open>astro\<close> raises instead of returning a
  parameter set.
\<close>

theorem astro_J2000_no_90_entry:
  "valid_timestamp J2000 \<and> T J2000 = 0 \<and> JD_b64 J2000 = 2451545
   \<and> d_polynomial [90] (T J2000) = Inl ZeroDivisionError
   \<and> astro J2000 = Inl ZeroDivisionError"
proof -
  have z: "T J2000 = 0" by (simp add: T_def JD_J2000_value)
  show ?thesis by (simp add: valid_J2000 z JD_b64_J2000 d_polynomial_zero astro_T_zero)
qed

text \<open>
  Claim C6. The entry \<open>P\<close> is said to have the value \<open>(p.value - xi.value) mod 360\<close> and no
  speed, for every valid timestamp. It has whenever \<open>astro\<close> returns (\<open>astro_P_entry\<close>); at
  J2000.0 \<open>astro\<close> returns no parameter set at all.
\<close>

theorem astro_J2000_no_P_entry:
  "valid_timestamp J2000 \<and> T J2000 = 0 \<and> (\<forall>a. astro J2000 \<noteq> Inr a)"
proof -
  have z: "T J2000 = 0" by (simp add: T_def JD_J2000_value)
  show ?thesis by (simp add: valid_J2000 z astro_T_zero)
qed

text \<open>
  Claim C9. Whenever \<open>astro\<close> returns, the entry \<open>xi\<close> is what \<open>_xi\<close> returns on the values
  of \<open>N\<close>, \<open>i\<close> and \<open>omega\<close>, reduced modulo 360 into \<open>[0, 360)\<close>, with no speed, exactly
  like the entries \<open>I\<close>, \<open>nu\<close>, \<open>nup\<close> and \<open>nupp\<close>.
\<close>

theorem astro_xi_normalized:
  assumes "astro t = Inr a"
  shows "\<exists>pN pi pw rI rxi rnu rnup rnupp.
           a ''N'' = Some pN \<and> a ''i'' = Some pi \<and> a ''omega'' = Some pw
           \<and> astro_I (val pN) (val pi) (val pw) = Inr rI
           \<and> astro_xi (val pN) (val pi) (val pw) = Inr rxi
           \<and> astro_nu (val pN) (val pi) (val pw) = Inr rnu
           \<and> astro_nup (val pN) (val pi) (val pw) = Inr rnup
           \<and> astro_nupp (val pN) (val pi) (val pw) = Inr rnupp
           \<and> a ''xi'' = Some \<lparr>val = py_mod rxi 360, speed = None\<rparr>
           \<and> 0 \<le> py_mod rxi 360 \<and> py_mod rxi 360 < 360
           \<and> a ''I'' = Some \<lparr>val = py_mod rI 360, speed = None\<rparr>
           \<and> a ''nu'' = Some \<lparr>val = py_mod rnu 360, speed = None\<rparr>
           \<and> a ''nup'' = Some \<lparr>val = py_mod rnup 360, speed = None\<rparr>
           \<and> a ''nupp'' = Some \<lparr>val = py_mod rnupp 360, speed = None\<rparr>"
proof -
  from astro_inverse(2) [OF assms] obtain rI rxi rnu rnup rnupp where r:
    "astro_I (arg_N t) (arg_i t) (arg_omega t) = Inr rI"
    "astro_xi (arg_N t) (arg_i t) (arg_omega t) = Inr rxi"
    "astro_nu (arg_N t) (arg_i t) (arg_omega t) = Inr rnu"
    "astro_nup (arg_N t) (arg_i t) (arg_omega t) = Inr rnup"
    "astro_nupp (arg_N t) (arg_i t) (arg_omega t) = Inr rnupp"
    and a: "a = astro_result t rI rxi rnu rnup rnupp"
    by blast
  have v: "val (poly_param lunar_node_coefficients (T t)) = arg_N t"
    "val (poly_param lunar_inclination_coefficients (T t)) = arg_i t"
    "val (poly_param terrestrial_obliquity_coefficients (T t)) = arg_omega t"
    by (simp_all add: poly_param_def arg_N_def arg_i_def arg_omega_def)
  show ?thesis
    unfolding a astro_result_entries
    using r by (simp add: v nodal_param_def py_mod_range)
qed

theorem astro_xi_normalized_witness:
  "\<exists>a. astro t_11h = Inr a \<and> (\<exists>pxi. a ''xi'' = Some pxi \<and> 0 \<le> val pxi \<and> val pxi < 360
     \<and> speed pxi = None)"
proof -
  have nz: "T t_11h \<noteq> 0" by (simp add: T_t_11h)
  from astro_returns [OF valid_t_11h nz] obtain a where a: "astro t_11h = Inr a" by blast
  from astro_xi_normalized [OF a] obtain rxi where
    "a ''xi'' = Some \<lparr>val = py_mod rxi 360, speed = None\<rparr>" "0 \<le> py_mod rxi 360" "py_mod rxi 360 < 360"
    by blast
  with a show ?thesis by simp
qed

end
